theory Spec2Isabelle
  imports Main
begin

section \<open>The store: services, counters, queue entries, logs\<close>

text \<open>
  The backend keeps its state in a relational store and reaches it only through
  \<^verbatim>\<open>query(sql, params)\<close>. Each table is a list of rows in table order. Identifiers
  are naturals, timestamps are microseconds since the epoch (the resolution of the
  store's clock), SQL NULL is \<open>None\<close>. JavaScript strings and SQL text are modelled as
  byte strings; the model is exact on ASCII text, and the theorems about queue numbers
  require service names and prefixes to be ASCII. A handler reads the clock once: its
  \<open>now\<close> stands for every \<^verbatim>\<open>NOW()\<close>, column default and \<^verbatim>\<open>new Date()\<close> of that
  call. The store's session has a time zone, given as its offset from UTC, in seconds
  east, at each instant (a zone with daylight saving has two offsets); nothing in the
  code sets it.
\<close>

datatype queue_status = Waiting | Called | Serving | Completed | Cancelled

datatype counter_status = Open | Busy | Closed | Break

datatype role = Admin | Counter_staff | Student

record service =
  svc_id :: nat
  svc_name :: string
  queue_prefix :: "string option"
  estimated_service_time :: "int option"
  is_active :: bool

record counter =
  c_id :: nat
  c_service_id :: nat
  counter_number :: nat
  c_status :: counter_status
  current_serving_queue_id :: "nat option"

record queue_entry =
  qe_id :: nat
  user_id :: nat
  service_id :: nat
  queue_number :: string
  queue_position :: int
  status :: queue_status
  counter_id :: "nat option"
  estimated_wait_time :: int
  requested_at :: nat
  called_at :: "nat option"
  started_serving_at :: "nat option"
  completed_at :: "nat option"
  cancelled_at :: "nat option"

record queue_log =
  log_queue_entry_id :: nat
  log_service_id :: nat
  log_counter_id :: "nat option"
  log_action :: string

record db =
  services :: "service list"
  users :: "nat list"
  counters :: "counter list"
  queue_entries :: "queue_entry list"
  queue_logs :: "queue_log list"
  queue_entries_id_seq :: nat
  system_settings :: "(bool \<times> string) option"
  time_zone :: "nat \<Rightarrow> int"

text \<open>
  A JavaScript exception carries a message. A handler answers with an HTTP status
  and a message; \<open>Inl\<close> is the failure response, \<open>Inr\<close> the payload of a success.
\<close>

datatype exn = Error string

datatype http_error = HttpError nat string

text \<open>
  Every \<^verbatim>\<open>await query(...)\<close> may reject (connection loss, timeout). A fault plan
  says, for the k-th query a function issues, whether it rejects and with which
  message; \<open>no_faults\<close> is the healthy store.
\<close>

type_synonym faults = "nat \<Rightarrow> string option"

definition no_faults :: faults where
  "no_faults = (\<lambda>k. None)"

definition shift_faults :: "nat \<Rightarrow> faults \<Rightarrow> faults" where
  "shift_faults n f = (\<lambda>k. f (k + n))"

section \<open>Query results\<close>

text \<open>
  \<^verbatim>\<open>ORDER BY ... LIMIT 1\<close>: the row that no other selected row strictly precedes;
  among rows that tie, the one that comes first in table order.
\<close>

fun order_by_limit1 :: "('a \<Rightarrow> 'a \<Rightarrow> bool) \<Rightarrow> 'a list \<Rightarrow> 'a option" where
  "order_by_limit1 precedes [] = None"
| "order_by_limit1 precedes (x # xs) =
     (case order_by_limit1 precedes xs of
        None \<Rightarrow> Some x
      | Some y \<Rightarrow> if precedes y x then Some y else Some x)"

text \<open>\<^verbatim>\<open>result.rows[0] || null\<close>\<close>

definition first_row :: "'a list \<Rightarrow> 'a option" where
  "first_row rows = (case rows of [] \<Rightarrow> None | r # _ \<Rightarrow> Some r)"

section \<open>Counter model\<close>

text \<open>
  \<^verbatim>\<open>Counter.findById\<close>: counters joined with their service, so a counter whose
  service row is missing is not found.
\<close>

definition Counter_findById :: "db \<Rightarrow> nat \<Rightarrow> counter option" where
  "Counter_findById d cid =
     first_row (filter (\<lambda>c. c_id c = cid \<and> (\<exists>s \<in> set (services d). svc_id s = c_service_id c))
                  (counters d))"

text \<open>
  \<^verbatim>\<open>Counter.updateStatus\<close>. The source rejects a status string outside
  open, busy, closed, break; the status type has exactly these four values.
\<close>

definition Counter_updateStatus :: "db \<Rightarrow> nat \<Rightarrow> counter_status \<Rightarrow> db" where
  "Counter_updateStatus d cid st =
     d\<lparr>counters := map (\<lambda>c. if c_id c = cid then c\<lparr>c_status := st\<rparr> else c) (counters d)\<rparr>"

definition Counter_setCurrentServing :: "db \<Rightarrow> nat \<Rightarrow> nat option \<Rightarrow> db" where
  "Counter_setCurrentServing d cid qid =
     d\<lparr>counters := map (\<lambda>c. if c_id c = cid then c\<lparr>current_serving_queue_id := qid\<rparr> else c)
                        (counters d)\<rparr>"

text \<open>The sort key of the next-waiting query: \<^verbatim>\<open>queue_position ASC, requested_at ASC\<close>.\<close>

definition key_lt :: "queue_entry \<Rightarrow> queue_entry \<Rightarrow> bool" where
  "key_lt a b \<longleftrightarrow>
     queue_position a < queue_position b
     \<or> (queue_position a = queue_position b \<and> requested_at a < requested_at b)"

definition key_le :: "queue_entry \<Rightarrow> queue_entry \<Rightarrow> bool" where
  "key_le a b \<longleftrightarrow>
     queue_position a < queue_position b
     \<or> (queue_position a = queue_position b \<and> requested_at a \<le> requested_at b)"

definition Counter_getNextWaitingQueue :: "db \<Rightarrow> nat \<Rightarrow> queue_entry option" where
  "Counter_getNextWaitingQueue d sid =
     order_by_limit1 key_lt
       (filter (\<lambda>q. service_id q = sid \<and> status q = Waiting) (queue_entries d))"

section \<open>Queue model: lookups, log, cancel\<close>

text \<open>\<^verbatim>\<open>Queue.findById\<close>: queue entries joined with services and users.\<close>

definition Queue_findById :: "db \<Rightarrow> nat \<Rightarrow> queue_entry option" where
  "Queue_findById d qid =
     first_row (filter (\<lambda>q. qe_id q = qid
                            \<and> (\<exists>s \<in> set (services d). svc_id s = service_id q)
                            \<and> user_id q \<in> set (users d))
                  (queue_entries d))"

definition Queue_findByUserAndService :: "db \<Rightarrow> nat \<Rightarrow> nat \<Rightarrow> queue_entry option" where
  "Queue_findByUserAndService d uid sid =
     first_row (filter (\<lambda>q. user_id q = uid \<and> service_id q = sid
                            \<and> status q \<in> {Waiting, Called, Serving})
                  (queue_entries d))"

definition Queue_logQueueAction :: "db \<Rightarrow> nat \<Rightarrow> nat \<Rightarrow> nat option \<Rightarrow> string \<Rightarrow> db" where
  "Queue_logQueueAction d qid sid cid act =
     d\<lparr>queue_logs := queue_logs d @
        [\<lparr>log_queue_entry_id = qid, log_service_id = sid, log_counter_id = cid, log_action = act\<rparr>]\<rparr>"

text \<open>\<^verbatim>\<open>UPDATE queue_entries SET ... WHERE id = $1\<close>: every row with that id is rewritten.\<close>

definition update_queue_entries :: "db \<Rightarrow> nat \<Rightarrow> (queue_entry \<Rightarrow> queue_entry) \<Rightarrow> db" where
  "update_queue_entries d qid upd =
     d\<lparr>queue_entries := map (\<lambda>q. if qe_id q = qid then upd q else q) (queue_entries d)\<rparr>"

text \<open>\<^verbatim>\<open>RETURNING *\<close> followed by \<^verbatim>\<open>rows[0]\<close>: the first rewritten row.\<close>

definition returning_first :: "db \<Rightarrow> nat \<Rightarrow> queue_entry option" where
  "returning_first d qid = first_row (filter (\<lambda>q. qe_id q = qid) (queue_entries d))"

text \<open>
  \<^verbatim>\<open>Queue.cancel(queueId, userId)\<close>. Three queries: the ownership SELECT, the UPDATE,
  the log INSERT. There is no transaction, so a rejection of a later query leaves the
  earlier writes in the store. The result pairs the outcome with the store afterwards;
  the returned row is \<^verbatim>\<open>result.rows[0]\<close> of the UPDATE (\<open>None\<close> is \<^verbatim>\<open>undefined\<close>).
\<close>

definition Queue_cancel ::
  "faults \<Rightarrow> db \<Rightarrow> nat \<Rightarrow> nat \<Rightarrow> nat \<Rightarrow> (exn + queue_entry option) \<times> db" where
  "Queue_cancel f d now queueId userId =
    (case f 0 of
       Some m \<Rightarrow> (Inl (Error m), d)
     | None \<Rightarrow>
        (case first_row (filter (\<lambda>q. qe_id q = queueId \<and> user_id q = userId) (queue_entries d)) of
           None \<Rightarrow> (Inl (Error ''Queue entry not found or access denied''), d)
         | Some queue \<Rightarrow>
            if status queue = Completed \<or> status queue = Cancelled
            then (Inl (Error ''Queue entry cannot be cancelled''), d)
            else
             (case f 1 of
                Some m \<Rightarrow> (Inl (Error m), d)
              | None \<Rightarrow>
                 (let d1 = update_queue_entries d queueId
                             (\<lambda>q. q\<lparr>status := Cancelled, cancelled_at := Some now\<rparr>)
                  in (case f 2 of
                        Some m \<Rightarrow> (Inl (Error m), d1)
                      | None \<Rightarrow>
                         (Inr (returning_first d1 queueId),
                          Queue_logQueueAction d1 queueId (service_id queue) (counter_id queue)
                            ''cancelled''))))))"

section \<open>Request handlers of the counter controller\<close>

text \<open>
  Each handler takes the fault plan of its own queries, the store, the clock reading
  \<open>now\<close> (\<^verbatim>\<open>NOW()\<close>), the authenticated role and the route parameters (well-formed
  integers), and returns the response with the store afterwards. The WebSocket
  emission that follows the writes only reads the store and catches its own errors; it
  is left out.
\<close>

definition not_staff :: "role \<Rightarrow> bool" where
  "not_staff r \<longleftrightarrow> r \<noteq> Counter_staff \<and> r \<noteq> Admin"

definition callNext ::
  "faults \<Rightarrow> db \<Rightarrow> nat \<Rightarrow> role \<Rightarrow> nat \<Rightarrow> (http_error + queue_entry) \<times> db" where
  "callNext f d now r counterId =
    (let e500 = Inl (HttpError 500 ''Error calling next queue'') in
     if not_staff r then (Inl (HttpError 403 ''Access denied. Counter staff only.''), d)
     else if f 0 \<noteq> None then (e500, d)
     else
      (case Counter_findById d counterId of
         None \<Rightarrow> (Inl (HttpError 404 ''Counter not found''), d)
       | Some cnt \<Rightarrow>
          if c_status cnt = Closed then (Inl (HttpError 400 ''Counter is closed''), d)
          else if f 1 \<noteq> None then (e500, d)
          else
           (case Counter_getNextWaitingQueue d (c_service_id cnt) of
              None \<Rightarrow> (Inl (HttpError 404 ''No waiting queues available''), d)
            | Some nextQueue \<Rightarrow>
               if f 2 \<noteq> None then (e500, d)
               else
                (let d1 = update_queue_entries d (qe_id nextQueue)
                            (\<lambda>q. q\<lparr>status := Called, counter_id := Some counterId,
                                    called_at := Some now\<rparr>)
                 in (case returning_first d1 (qe_id nextQueue) of
                       None \<Rightarrow> (e500, d1)
                     | Some updatedQueue \<Rightarrow>
                        if f 3 \<noteq> None then (e500, d1)
                        else
                         (let d2 = Counter_setCurrentServing d1 counterId
                                     (Some (qe_id updatedQueue))
                          in if f 4 \<noteq> None then (e500, d2)
                             else
                              (let d3 = Counter_updateStatus d2 counterId Busy
                               in if f 5 \<noteq> None then (e500, d3)
                                  else (Inr updatedQueue,
                                        Queue_logQueueAction d3 (qe_id updatedQueue)
                                          (c_service_id cnt) (Some counterId) ''called''))))))))"

definition startServing ::
  "faults \<Rightarrow> db \<Rightarrow> nat \<Rightarrow> role \<Rightarrow> nat \<Rightarrow> nat \<Rightarrow> (http_error + queue_entry) \<times> db" where
  "startServing f d now r counterId queueId =
    (let e500 = Inl (HttpError 500 ''Error starting service'') in
     if not_staff r then (Inl (HttpError 403 ''Access denied. Counter staff only.''), d)
     else if f 0 \<noteq> None then (e500, d)
     else
      (case Counter_findById d counterId of
         None \<Rightarrow> (Inl (HttpError 404 ''Counter not found''), d)
       | Some cnt \<Rightarrow>
          if f 1 \<noteq> None then (e500, d)
          else
           (case Queue_findById d queueId of
              None \<Rightarrow> (Inl (HttpError 404 ''Queue entry not found''), d)
            | Some queueEntry \<Rightarrow>
               if counter_id queueEntry \<noteq> Some counterId
               then (Inl (HttpError 400 ''Queue entry is not assigned to this counter''), d)
               else if f 2 \<noteq> None then (e500, d)
               else
                (let d1 = update_queue_entries d queueId
                            (\<lambda>q. q\<lparr>status := Serving, started_serving_at := Some now\<rparr>)
                 in if f 3 \<noteq> None then (e500, d1)
                    else
                     (let d2 = Queue_logQueueAction d1 queueId (c_service_id cnt)
                                 (Some counterId) ''started''
                      in (case returning_first d1 queueId of
                            None \<Rightarrow> (e500, d2)
                          | Some updatedQueue \<Rightarrow> (Inr updatedQueue, d2)))))))"

definition completeService ::
  "faults \<Rightarrow> db \<Rightarrow> nat \<Rightarrow> role \<Rightarrow> nat \<Rightarrow> nat \<Rightarrow> (http_error + queue_entry) \<times> db" where
  "completeService f d now r counterId queueId =
    (let e500 = Inl (HttpError 500 ''Error completing service'') in
     if not_staff r then (Inl (HttpError 403 ''Access denied. Counter staff only.''), d)
     else if f 0 \<noteq> None then (e500, d)
     else
      (case Counter_findById d counterId of
         None \<Rightarrow> (Inl (HttpError 404 ''Counter not found''), d)
       | Some cnt \<Rightarrow>
          if f 1 \<noteq> None then (e500, d)
          else
           (case Queue_findById d queueId of
              None \<Rightarrow> (Inl (HttpError 404 ''Queue entry not found''), d)
            | Some queueEntry \<Rightarrow>
               if counter_id queueEntry \<noteq> Some counterId
               then (Inl (HttpError 400 ''Queue entry is not assigned to this counter''), d)
               else if f 2 \<noteq> None then (e500, d)
               else
                (let d1 = update_queue_entries d queueId
                            (\<lambda>q. q\<lparr>status := Completed, completed_at := Some now\<rparr>)
                 in if f 3 \<noteq> None then (e500, d1)
                    else
                     (let d2 = Counter_setCurrentServing d1 counterId None
                      in if f 4 \<noteq> None then (e500, d2)
                         else
                          (let d3 = Counter_updateStatus d2 counterId Open
                           in if f 5 \<noteq> None then (e500, d3)
                              else
                               (let d4 = Queue_logQueueAction d3 queueId (c_service_id cnt)
                                           (Some counterId) ''completed''
                                in (case returning_first d1 queueId of
                                      None \<Rightarrow> (e500, d4)
                                    | Some updatedQueue \<Rightarrow> (Inr updatedQueue, d4)))))))))"

section \<open>Request handlers of the queue controller: cancel\<close>

text \<open>\<^verbatim>\<open>s.startsWith(p)\<close> and \<^verbatim>\<open>s.includes(p)\<close>\<close>

fun startsWith :: "string \<Rightarrow> string \<Rightarrow> bool" where
  "startsWith s [] = True"
| "startsWith [] (p # ps) = False"
| "startsWith (c # s) (p # ps) = (c = p \<and> startsWith s ps)"

fun includes_str :: "string \<Rightarrow> string \<Rightarrow> bool" where
  "includes_str [] p = (p = [])"
| "includes_str (c # s) p = (startsWith (c # s) p \<or> includes_str s p)"

definition cancelQueue ::
  "faults \<Rightarrow> db \<Rightarrow> nat \<Rightarrow> nat \<Rightarrow> nat \<Rightarrow> (http_error + queue_entry) \<times> db" where
  "cancelQueue f d now userId queueId =
     (case Queue_cancel f d now queueId userId of
        (Inr (Some cancelledQueue), d') \<Rightarrow> (Inr cancelledQueue, d')
      | (Inr None, d') \<Rightarrow> (Inl (HttpError 500 ''Error cancelling queue''), d')
      | (Inl (Error m), d') \<Rightarrow>
          if includes_str m ''not found'' \<or> includes_str m ''cannot be cancelled''
          then (Inl (HttpError 400 m), d')
          else (Inl (HttpError 500 ''Error cancelling queue''), d'))"

section \<open>JavaScript and SQL string operations\<close>

text \<open>
  The string operations are those of JavaScript on ASCII strings: \<^verbatim>\<open>trim\<close> removes the
  ASCII white space of ECMAScript at both ends, \<^verbatim>\<open>toUpperCase\<close> maps the letters a to z,
  \<^verbatim>\<open>substring(0, 3)\<close> is \<open>take 3\<close>. On other text JavaScript also trims Unicode spaces,
  upper-cases other letters and counts UTF-16 code units; the theorems on ticket
  sequencing and on the uniqueness of queue numbers therefore require the name and the
  configured prefix of the service to be \<open>ascii\<close>.
\<close>

definition ascii :: "string \<Rightarrow> bool" where
  "ascii s \<longleftrightarrow> (\<forall>c \<in> set s. (of_char c :: nat) < 128)"

definition is_space :: "char \<Rightarrow> bool" where
  "is_space c \<longleftrightarrow> c \<in> set [CHR 0x09, CHR 0x0A, CHR 0x0B, CHR 0x0C, CHR 0x0D, CHR '' '']"

definition trim :: "string \<Rightarrow> string" where
  "trim s = rev (dropWhile is_space (rev (dropWhile is_space s)))"

definition upper_char :: "char \<Rightarrow> char" where
  "upper_char c =
     (case map_of (zip ''abcdefghijklmnopqrstuvwxyz'' ''ABCDEFGHIJKLMNOPQRSTUVWXYZ'') c of
        Some u \<Rightarrow> u
      | None \<Rightarrow> c)"

definition toUpperCase :: "string \<Rightarrow> string" where
  "toUpperCase s = map upper_char s"

text \<open>\<^verbatim>\<open>s.split(sep)\<close> for a one-character separator.\<close>

fun split_on :: "char \<Rightarrow> string \<Rightarrow> string list" where
  "split_on sep [] = [] # []"
| "split_on sep (c # s) =
     (if c = sep then [] # split_on sep s
      else (case split_on sep s of
              [] \<Rightarrow> [c] # []
            | x # xs \<Rightarrow> (c # x) # xs))"

text \<open>\<^verbatim>\<open>s.padStart(n, c)\<close>\<close>

definition padStart :: "nat \<Rightarrow> char \<Rightarrow> string \<Rightarrow> string" where
  "padStart n c s = replicate (n - length s) c @ s"

text \<open>
  JavaScript numbers, as far as the queue number needs them: an integer or NaN.
  The model is exact while the integer stays below \<open>2 ^ 53\<close>, where a double holds it.
\<close>

datatype jsnum = NaN | Num int

definition js_plus :: "jsnum \<Rightarrow> int \<Rightarrow> jsnum" where
  "js_plus x k = (case x of NaN \<Rightarrow> NaN | Num i \<Rightarrow> Num (i + k))"

definition digit_value :: "nat \<Rightarrow> char \<Rightarrow> nat option" where
  "digit_value radix c =
     (case map_of
        [(CHR ''0'', 0), (CHR ''1'', 1), (CHR ''2'', 2), (CHR ''3'', 3), (CHR ''4'', 4),
         (CHR ''5'', 5), (CHR ''6'', 6), (CHR ''7'', 7), (CHR ''8'', 8), (CHR ''9'', 9),
         (CHR ''a'', 10), (CHR ''b'', 11), (CHR ''c'', 12), (CHR ''d'', 13), (CHR ''e'', 14),
         (CHR ''f'', 15), (CHR ''A'', 10), (CHR ''B'', 11), (CHR ''C'', 12), (CHR ''D'', 13),
         (CHR ''E'', 14), (CHR ''F'', 15)] c of
        None \<Rightarrow> None
      | Some v \<Rightarrow> if v < radix then Some v else None)"

definition digits_value :: "nat \<Rightarrow> string \<Rightarrow> nat" where
  "digits_value radix z =
     foldl (\<lambda>acc c. acc * radix + (case digit_value radix c of Some v \<Rightarrow> v | None \<Rightarrow> 0)) 0 z"

text \<open>
  \<^verbatim>\<open>parseInt(s)\<close> without a radix: leading white space is skipped, a sign is read,
  \<^verbatim>\<open>0x\<close> or \<^verbatim>\<open>0X\<close> switches to radix 16, the longest run of digits is the value, and
  an empty run is NaN.
\<close>

definition parseInt :: "string \<Rightarrow> jsnum" where
  "parseInt str =
     (let s = dropWhile is_space str;
          neg = (case s of [] \<Rightarrow> False | c # _ \<Rightarrow> c = CHR ''-'');
          s1 = (case s of [] \<Rightarrow> [] | c # cs \<Rightarrow> if c = CHR ''+'' \<or> c = CHR ''-'' then cs else s);
          hex = (startsWith s1 ''0x'' \<or> startsWith s1 ''0X'');
          s2 = (if hex then drop 2 s1 else s1);
          radix = (if hex then 16 else 10);
          z = takeWhile (\<lambda>c. digit_value radix c \<noteq> None) s2
      in if z = [] then NaN
         else Num ((if neg then - 1 else 1) * int (digits_value radix z)))"

text \<open>\<^verbatim>\<open>String(x)\<close> for a number.\<close>

definition digit_char :: "nat \<Rightarrow> char" where
  "digit_char n = ''0123456789'' ! n"

fun nat_to_string :: "nat \<Rightarrow> string" where
  "nat_to_string n =
     (if n < 10 then [digit_char n] else nat_to_string (n div 10) @ [digit_char (n mod 10)])"

declare nat_to_string.simps [simp del]

definition Number_toString :: "jsnum \<Rightarrow> string" where
  "Number_toString x =
     (case x of
        NaN \<Rightarrow> ''NaN''
      | Num i \<Rightarrow> if i < 0 then CHR ''-'' # nat_to_string (nat (- i)) else nat_to_string (nat i))"

text \<open>
  SQL \<^verbatim>\<open>string LIKE pattern\<close>: \<^verbatim>\<open>%\<close> matches any run of characters, \<^verbatim>\<open>_\<close> any one
  character, a backslash makes the next pattern character literal. The first argument is
  the pattern.
\<close>

fun like :: "string \<Rightarrow> string \<Rightarrow> bool" where
  "like [] s = (s = [])"
| "like (p # ps) [] = (p = CHR ''%'' \<and> like ps [])"
| "like (p # ps) (c # s) =
     (if p = CHR ''%'' then like ps (c # s) \<or> like (p # ps) s
      else if p = CHR ''_'' then like ps s
      else if p = CHR 0x5C then (case ps of [] \<Rightarrow> False | e # ps' \<Rightarrow> c = e \<and> like ps' s)
      else c = p \<and> like ps s)"

section \<open>Queue model: numbering, position, creation\<close>

text \<open>
  The calendar date (as a day number) of an instant in a time zone that is \<open>tz t\<close>
  seconds east of UTC at instant \<open>t\<close>. \<^verbatim>\<open>new Date().toISOString().split('T')[0]\<close> is
  the UTC date, \<open>date_of (\<lambda>t. 0)\<close>; SQL \<^verbatim>\<open>DATE(ts)\<close> is the date in the time zone of
  the session.
\<close>

definition date_of :: "(nat \<Rightarrow> int) \<Rightarrow> nat \<Rightarrow> int" where
  "date_of tz t = (int t + tz t * 1000000) div 86400000000"

definition service_prefix :: "service \<Rightarrow> string" where
  "service_prefix svc =
     (let qp = (case queue_prefix svc of None \<Rightarrow> [] | Some p \<Rightarrow> p)
      in if qp \<noteq> [] \<and> trim qp \<noteq> [] then toUpperCase (trim qp)
         else toUpperCase (take 3 (svc_name svc)))"

text \<open>The last queue number of today: \<^verbatim>\<open>ORDER BY id DESC LIMIT 1\<close>.\<close>

definition last_queue_today :: "db \<Rightarrow> nat \<Rightarrow> nat \<Rightarrow> string \<Rightarrow> queue_entry option" where
  "last_queue_today d now serviceId pre =
     order_by_limit1 (\<lambda>a b. qe_id a > qe_id b)
       (filter (\<lambda>q. service_id q = serviceId
                    \<and> date_of (time_zone d) (requested_at q) = date_of (\<lambda>t. 0) now
                    \<and> like (pre @ ''-%'') (queue_number q))
          (queue_entries d))"

definition next_number :: "queue_entry option \<Rightarrow> jsnum" where
  "next_number lastRow =
     (case lastRow of
        None \<Rightarrow> Num 1
      | Some row \<Rightarrow>
         js_plus (case split_on CHR ''-'' (queue_number row) of
                    _ # numberPart # _ \<Rightarrow> parseInt numberPart
                  | _ \<Rightarrow> NaN) 1)"

definition Queue_generateQueueNumber :: "faults \<Rightarrow> db \<Rightarrow> nat \<Rightarrow> nat \<Rightarrow> exn + string" where
  "Queue_generateQueueNumber f d now serviceId =
    (case f 0 of
       Some m \<Rightarrow> Inl (Error m)
     | None \<Rightarrow>
        (case first_row (filter (\<lambda>s. svc_id s = serviceId) (services d)) of
           None \<Rightarrow> Inl (Error ''Service not found'')
         | Some svc \<Rightarrow>
            (case f 1 of
               Some m \<Rightarrow> Inl (Error m)
             | None \<Rightarrow>
                Inr (service_prefix svc @ ''-'' @
                     padStart 3 CHR ''0''
                       (Number_toString
                          (next_number
                             (last_queue_today d now serviceId (service_prefix svc))))))))"

definition Queue_calculateQueuePosition :: "db \<Rightarrow> nat \<Rightarrow> nat \<Rightarrow> int" where
  "Queue_calculateQueuePosition d now serviceId =
     int (length (filter (\<lambda>q. service_id q = serviceId \<and> status q = Waiting
                              \<and> requested_at q < now)
                    (queue_entries d))) + 1"

text \<open>
  \<^verbatim>\<open>serviceResult.rows[0]?.estimated_service_time || 5\<close>: a missing row, NULL and 0
  all give 5.
\<close>

definition service_time_or_5 :: "db \<Rightarrow> nat \<Rightarrow> int" where
  "service_time_or_5 d serviceId =
     (case first_row (filter (\<lambda>s. svc_id s = serviceId) (services d)) of
        None \<Rightarrow> 5
      | Some svc \<Rightarrow>
         (case estimated_service_time svc of
            None \<Rightarrow> 5
          | Some t \<Rightarrow> if t = 0 then 5 else t))"

text \<open>
  The INSERT: the id comes from the table's sequence, \<^verbatim>\<open>requested_at\<close> from the column
  default (the current time), the columns not listed are NULL.
\<close>

definition insert_queue_entry ::
  "db \<Rightarrow> nat \<Rightarrow> nat \<Rightarrow> nat \<Rightarrow> string \<Rightarrow> int \<Rightarrow> int \<Rightarrow> queue_entry \<times> db" where
  "insert_queue_entry d now userId serviceId queueNumber queuePosition ewt =
     (let row = \<lparr>qe_id = queue_entries_id_seq d + 1, user_id = userId, service_id = serviceId,
                 queue_number = queueNumber, queue_position = queuePosition, status = Waiting,
                 counter_id = None, estimated_wait_time = ewt, requested_at = now,
                 called_at = None, started_serving_at = None, completed_at = None,
                 cancelled_at = None\<rparr>
      in (row, d\<lparr>queue_entries := queue_entries d @ [row],
                 queue_entries_id_seq := queue_entries_id_seq d + 1\<rparr>))"

text \<open>
  \<^verbatim>\<open>Queue.create\<close>: six queries (two for the number, the position, the service time,
  the INSERT, the log), none inside a transaction.
\<close>

definition Queue_create :: "faults \<Rightarrow> db \<Rightarrow> nat \<Rightarrow> nat \<Rightarrow> nat \<Rightarrow> (exn + queue_entry) \<times> db" where
  "Queue_create f d now userId serviceId =
    (case Queue_generateQueueNumber f d now serviceId of
       Inl e \<Rightarrow> (Inl e, d)
     | Inr queueNumber \<Rightarrow>
        (case f 2 of
           Some m \<Rightarrow> (Inl (Error m), d)
         | None \<Rightarrow>
            (let queuePosition = Queue_calculateQueuePosition d now serviceId in
             case f 3 of
               Some m \<Rightarrow> (Inl (Error m), d)
             | None \<Rightarrow>
                (let estimatedWaitTime = service_time_or_5 d serviceId in
                 case f 4 of
                   Some m \<Rightarrow> (Inl (Error m), d)
                 | None \<Rightarrow>
                    (case insert_queue_entry d now userId serviceId queueNumber queuePosition
                            (estimatedWaitTime * queuePosition) of
                       (row, d1) \<Rightarrow>
                        (case f 5 of
                           Some m \<Rightarrow> (Inl (Error m), d1)
                         | None \<Rightarrow>
                            (Inr row,
                             Queue_logQueueAction d1 (qe_id row) serviceId None ''created'')))))))"

section \<open>Request handlers of the queue controller: request\<close>

text \<open>
  \<^verbatim>\<open>getSystemSettings\<close> swallows a rejected query and answers with the defaults.
\<close>

definition getSystemSettings :: "string option \<Rightarrow> db \<Rightarrow> bool \<times> string" where
  "getSystemSettings fault d =
     (case fault of
        Some m \<Rightarrow> (False, [])
      | None \<Rightarrow> (case system_settings d of None \<Rightarrow> (False, []) | Some st \<Rightarrow> st))"

text \<open>
  \<^verbatim>\<open>requestQueue\<close>. The body's \<^verbatim>\<open>serviceId\<close> may be absent (\<open>None\<close>); \<^verbatim>\<open>!serviceId\<close> also
  rejects 0.
\<close>

definition requestQueue ::
  "faults \<Rightarrow> db \<Rightarrow> nat \<Rightarrow> nat \<Rightarrow> nat option \<Rightarrow> (http_error + queue_entry) \<times> db" where
  "requestQueue f d now userId serviceIdOpt =
    (let e500 = Inl (HttpError 500 ''Error creating queue entry'') in
     case serviceIdOpt of
       None \<Rightarrow> (Inl (HttpError 400 ''Service ID is required''), d)
     | Some serviceId \<Rightarrow>
        if serviceId = 0 then (Inl (HttpError 400 ''Service ID is required''), d)
        else
         (case getSystemSettings (f 0) d of
            (maintenance, msg) \<Rightarrow>
             if maintenance
             then (Inl (HttpError 503
                     (if msg \<noteq> [] then msg
                      else ''System is currently under maintenance. Please try again later.'')), d)
             else if f 1 \<noteq> None then (e500, d)
             else
              (case first_row (filter (\<lambda>s. svc_id s = serviceId) (services d)) of
                 None \<Rightarrow> (Inl (HttpError 404 ''Service not found or inactive''), d)
               | Some svc \<Rightarrow>
                  if \<not> is_active svc
                  then (Inl (HttpError 404 ''Service not found or inactive''), d)
                  else if f 2 \<noteq> None then (e500, d)
                  else
                   (case Queue_findByUserAndService d userId serviceId of
                      Some existingQueue \<Rightarrow>
                       (Inl (HttpError 400
                               ''You already have an active queue for this service''), d)
                    | None \<Rightarrow>
                       (case Queue_create (shift_faults 3 f) d now userId serviceId of
                          (Inl e, d') \<Rightarrow> (e500, d')
                        | (Inr queueEntry, d') \<Rightarrow> (Inr queueEntry, d'))))))"

section \<open>Runs of requests\<close>

text \<open>
  A run of call-next requests, each given as the clock reading and the calling counter,
  by staff with role \<open>r\<close>; the result lists the tickets the successful calls returned,
  in order.
\<close>

fun call_repeatedly :: "db \<Rightarrow> role \<Rightarrow> (nat \<times> nat) list \<Rightarrow> queue_entry list" where
  "call_repeatedly d r [] = []"
| "call_repeatedly d r ((now, counterId) # calls) =
     (case callNext no_faults d now r counterId of
        (Inl e, d') \<Rightarrow> call_repeatedly d' r calls
      | (Inr t, d') \<Rightarrow> t # call_repeatedly d' r calls)"

text \<open>
  Requests for one service handled one after the other, each given as the clock reading
  and the requesting user; the result lists the tickets created, in order.
\<close>

fun request_repeatedly :: "db \<Rightarrow> nat \<Rightarrow> (nat \<times> nat) list \<Rightarrow> queue_entry list" where
  "request_repeatedly d serviceId [] = []"
| "request_repeatedly d serviceId ((now, userId) # reqs) =
     (case requestQueue no_faults d now userId (Some serviceId) of
        (Inl e, d') \<Rightarrow> request_repeatedly d' serviceId reqs
      | (Inr t, d') \<Rightarrow> t # request_repeatedly d' serviceId reqs)"

section \<open>Creations that overlap\<close>

text \<open>
  \<^verbatim>\<open>Queue.create\<close> in two halves: its four reads (the two queries of the number, the
  position, the service time) and its two writes (the INSERT and the log). Each
  \<^verbatim>\<open>await\<close> hands control to other requests, so the halves of two requests can
  interleave.
\<close>

definition Queue_create_reads :: "faults \<Rightarrow> db \<Rightarrow> nat \<Rightarrow> nat \<Rightarrow> exn + string \<times> int \<times> int" where
  "Queue_create_reads f d now serviceId =
    (case Queue_generateQueueNumber f d now serviceId of
       Inl e \<Rightarrow> Inl e
     | Inr queueNumber \<Rightarrow>
        (case f 2 of
           Some m \<Rightarrow> Inl (Error m)
         | None \<Rightarrow>
            (case f 3 of
               Some m \<Rightarrow> Inl (Error m)
             | None \<Rightarrow>
                Inr (queueNumber, Queue_calculateQueuePosition d now serviceId,
                     service_time_or_5 d serviceId))))"

definition Queue_create_writes ::
  "faults \<Rightarrow> db \<Rightarrow> nat \<Rightarrow> nat \<Rightarrow> nat \<Rightarrow> string \<times> int \<times> int \<Rightarrow> (exn + queue_entry) \<times> db" where
  "Queue_create_writes f d now userId serviceId v =
    (case v of
       (queueNumber, queuePosition, estimatedWaitTime) \<Rightarrow>
        (case f 4 of
           Some m \<Rightarrow> (Inl (Error m), d)
         | None \<Rightarrow>
            (case insert_queue_entry d now userId serviceId queueNumber queuePosition
                    (estimatedWaitTime * queuePosition) of
               (row, d1) \<Rightarrow>
                (case f 5 of
                   Some m \<Rightarrow> (Inl (Error m), d1)
                 | None \<Rightarrow>
                    (Inr row,
                     Queue_logQueueAction d1 (qe_id row) serviceId None ''created'')))))"


section \<open>Store failures\<close>

text \<open>A store that rejects exactly the k-th query of a handler.\<close>

definition store_fails_at :: "nat \<Rightarrow> faults" where
  "store_fails_at k = (\<lambda>i. if i = k then Some ''Connection terminated unexpectedly'' else None)"

section \<open>Properties of tickets and stores\<close>

text \<open>The fields fixed at admission, with the id of their ticket.\<close>

definition admission_fields :: "queue_entry \<Rightarrow> nat \<times> int \<times> int" where
  "admission_fields q = (qe_id q, queue_position q, estimated_wait_time q)"

text \<open>The tickets of a user for a service that are in a non-terminal status.\<close>

definition active_tickets :: "db \<Rightarrow> nat \<Rightarrow> nat \<Rightarrow> queue_entry list" where
  "active_tickets d userId serviceId =
     filter (\<lambda>q. user_id q = userId \<and> service_id q = serviceId
                  \<and> status q \<in> {Waiting, Called, Serving})
       (queue_entries d)"

text \<open>
  A prefix without the separator of queue numbers and without the special characters of
  LIKE patterns.
\<close>

definition plain_prefix :: "string \<Rightarrow> bool" where
  "plain_prefix p \<longleftrightarrow> (\<forall>c \<in> set p. c \<noteq> CHR ''-'' \<and> c \<noteq> CHR ''%'' \<and> c \<noteq> CHR ''_'' \<and> c \<noteq> CHR 0x5C)"


section \<open>Sequences of operations\<close>

text \<open>
  The operations on the store. The five ticket operations are requests with their fault
  plan, clock reading and parameters; they are the only code that writes the table of
  queue entries. Every other route (counter status, counters, services, users,
  settings) writes other tables only: \<open>Elsewhere g\<close> changes the store as \<open>g\<close> says,
  except that the queue entries stay as they are. \<open>run_operations\<close> is the store after
  a sequence of operations.
\<close>

datatype operation =
    Request faults nat nat "nat option"
  | CallNext faults nat role nat
  | StartServing faults nat role nat nat
  | CompleteService faults nat role nat nat
  | Cancel faults nat nat nat
  | Elsewhere "db \<Rightarrow> db"

fun perform :: "operation \<Rightarrow> db \<Rightarrow> db" where
  "perform (Request f now userId serviceIdOpt) d = snd (requestQueue f d now userId serviceIdOpt)"
| "perform (CallNext f now r counterId) d = snd (callNext f d now r counterId)"
| "perform (StartServing f now r counterId queueId) d =
     snd (startServing f d now r counterId queueId)"
| "perform (CompleteService f now r counterId queueId) d =
     snd (completeService f d now r counterId queueId)"
| "perform (Cancel f now userId queueId) d = snd (cancelQueue f d now userId queueId)"
| "perform (Elsewhere g) d = (g d)\<lparr>queue_entries := queue_entries d\<rparr>"

definition run_operations :: "operation list \<Rightarrow> db \<Rightarrow> db" where
  "run_operations ops d = fold perform ops d"

section \<open>A day at the registrar\<close>

text \<open>
  The scenario used to exercise the handlers: one service, one counter, two users.
  Every later state is produced by the handlers themselves.
\<close>

definition registrar :: service where
  "registrar = \<lparr>svc_id = 1, svc_name = ''Registrar'', queue_prefix = Some ''REG'',
                 estimated_service_time = Some 10, is_active = True\<rparr>"

definition db0 :: db where
  "db0 = \<lparr>services = [registrar], users = [1, 2],
           counters = [\<lparr>c_id = 1, c_service_id = 1, counter_number = 1, c_status = Open,
                        current_serving_queue_id = None\<rparr>],
           queue_entries = [], queue_logs = [], queue_entries_id_seq = 0,
           system_settings = None, time_zone = (\<lambda>t. 0)\<rparr>"

text \<open>User 1 and user 2 each request a ticket; counter 1 calls, starts and completes.\<close>

definition db_requested1 :: db where
  "db_requested1 = snd (requestQueue no_faults db0 100 1 (Some 1))"

definition db_requested2 :: db where
  "db_requested2 = snd (requestQueue no_faults db_requested1 101 2 (Some 1))"

definition db_called :: db where
  "db_called = snd (callNext no_faults db_requested2 110 Counter_staff 1)"

definition db_serving :: db where
  "db_serving = snd (startServing no_faults db_called 120 Counter_staff 1 1)"

definition db_completed :: db where
  "db_completed = snd (completeService no_faults db_serving 130 Counter_staff 1 1)"

text \<open>User 1, whose first ticket is completed, requests again.\<close>

definition db_requested3 :: db where
  "db_requested3 = snd (requestQueue no_faults db_completed 140 1 (Some 1))"

text \<open>Instead of being served, user 1 cancels the called ticket.\<close>

definition db_cancelled :: db where
  "db_cancelled = snd (cancelQueue no_faults db_called 115 1 1)"

text \<open>A second service, whose estimated service time is 0.\<close>

definition clinic :: service where
  "clinic = \<lparr>svc_id = 2, svc_name = ''Clinic'', queue_prefix = None,
              estimated_service_time = Some 0, is_active = True\<rparr>"

definition db_clinic :: db where
  "db_clinic = \<lparr>services = [clinic], users = [1, 2], counters = [],
                 queue_entries = [], queue_logs = [], queue_entries_id_seq = 0,
                 system_settings = None, time_zone = (\<lambda>t. 0)\<rparr>"

text \<open>User 1 requests a ticket at the clinic at instant 100.\<close>

definition db_clinic1 :: db where
  "db_clinic1 = snd (requestQueue no_faults db_clinic 100 1 (Some 2))"

text \<open>The registrar's store with two tickets that were not numbered in the order of their ids.\<close>

definition db_out_of_order :: db where
  "db_out_of_order =
     db0\<lparr>queue_entries :=
           [\<lparr>qe_id = 1, user_id = 1, service_id = 1, queue_number = ''REG-005'',
              queue_position = 1, status = Waiting, counter_id = None,
              estimated_wait_time = 10, requested_at = 100, called_at = None,
              started_serving_at = None, completed_at = None, cancelled_at = None\<rparr>,
            \<lparr>qe_id = 2, user_id = 2, service_id = 1, queue_number = ''REG-002'',
              queue_position = 2, status = Waiting, counter_id = None,
              estimated_wait_time = 20, requested_at = 101, called_at = None,
              started_serving_at = None, completed_at = None, cancelled_at = None\<rparr>],
         queue_entries_id_seq := 2\<rparr>"

text \<open>
  A service whose name has a hyphen among its first three characters; three users
  request a ticket one after the other.
\<close>

definition xray :: service where
  "xray = \<lparr>svc_id = 3, svc_name = ''X-Ray'', queue_prefix = None,
            estimated_service_time = Some 15, is_active = True\<rparr>"

definition db_xray :: db where
  "db_xray = \<lparr>services = [xray], users = [1, 2, 3], counters = [],
               queue_entries = [], queue_logs = [], queue_entries_id_seq = 0,
               system_settings = None, time_zone = (\<lambda>t. 0)\<rparr>"

definition db_xray1 :: db where
  "db_xray1 = snd (requestQueue no_faults db_xray 100 1 (Some 3))"

definition db_xray2 :: db where
  "db_xray2 = snd (requestQueue no_faults db_xray1 101 2 (Some 3))"

definition db_xray3 :: db where
  "db_xray3 = snd (requestQueue no_faults db_xray2 102 3 (Some 3))"

text \<open>
  A store whose session runs eight hours east of UTC, with two services. The cashier's
  configured prefix needs trimming and upper-casing; the library's is blank, so its
  prefix comes from its name. The cashier has two tickets, both requested at 06:00 of
  local day 1, which is 22:00 of UTC day 0; the later one carries the smaller number,
  written without padding.
\<close>

definition cashier :: service where
  "cashier = \<lparr>svc_id = 4, svc_name = ''Cashier'', queue_prefix = Some ''  cash '',
               estimated_service_time = Some 3, is_active = True\<rparr>"

definition library :: service where
  "library = \<lparr>svc_id = 5, svc_name = ''library'', queue_prefix = Some ''  '',
               estimated_service_time = Some 4, is_active = True\<rparr>"

definition db_desk :: db where
  "db_desk =
     \<lparr>services = [cashier, library], users = [1, 2], counters = [],
      queue_entries =
        [\<lparr>qe_id = 3, user_id = 1, service_id = 4, queue_number = ''CASH-041'',
           queue_position = 1, status = Completed, counter_id = None,
           estimated_wait_time = 3, requested_at = 79200000000, called_at = None,
           started_serving_at = None, completed_at = None, cancelled_at = None\<rparr>,
         \<lparr>qe_id = 7, user_id = 2, service_id = 4, queue_number = ''CASH-9'',
           queue_position = 1, status = Waiting, counter_id = None,
           estimated_wait_time = 3, requested_at = 79200000000, called_at = None,
           started_serving_at = None, completed_at = None, cancelled_at = None\<rparr>],
      queue_logs = [], queue_entries_id_seq = 7, system_settings = None,
      time_zone = (\<lambda>t. 28800)\<rparr>"

text \<open>
  A hall with the registrar and the clinic. Counter 1 serves the registrar; of the
  clinic's counters, counter 2 is closed and counter 3 is busy with ticket 9; counter 4
  belongs to a service that does not exist. Of the clinic's two waiting tickets the one
  with the larger id has the smaller position.
\<close>

definition db_hall :: db where
  "db_hall =
     \<lparr>services = [registrar, clinic], users = [1, 2, 3],
      counters =
        [\<lparr>c_id = 1, c_service_id = 1, counter_number = 1, c_status = Open,
           current_serving_queue_id = None\<rparr>,
         \<lparr>c_id = 2, c_service_id = 2, counter_number = 2, c_status = Closed,
           current_serving_queue_id = None\<rparr>,
         \<lparr>c_id = 3, c_service_id = 2, counter_number = 3, c_status = Busy,
           current_serving_queue_id = Some 9\<rparr>,
         \<lparr>c_id = 4, c_service_id = 7, counter_number = 4, c_status = Open,
           current_serving_queue_id = None\<rparr>],
      queue_entries =
        [\<lparr>qe_id = 10, user_id = 1, service_id = 1, queue_number = ''REG-001'',
           queue_position = 1, status = Waiting, counter_id = None,
           estimated_wait_time = 10, requested_at = 100, called_at = None,
           started_serving_at = None, completed_at = None, cancelled_at = None\<rparr>,
         \<lparr>qe_id = 11, user_id = 2, service_id = 2, queue_number = ''CLI-002'',
           queue_position = 2, status = Waiting, counter_id = None,
           estimated_wait_time = 10, requested_at = 101, called_at = None,
           started_serving_at = None, completed_at = None, cancelled_at = None\<rparr>,
         \<lparr>qe_id = 12, user_id = 3, service_id = 2, queue_number = ''CLI-003'',
           queue_position = 1, status = Waiting, counter_id = None,
           estimated_wait_time = 5, requested_at = 102, called_at = None,
           started_serving_at = None, completed_at = None, cancelled_at = None\<rparr>],
      queue_logs = [], queue_entries_id_seq = 12, system_settings = None,
      time_zone = (\<lambda>t. 0)\<rparr>"

section \<open>Evaluating the model\<close>

text \<open>The defining equations, collected for evaluation on concrete stores.\<close>

lemmas handler_defs =
  requestQueue_def callNext_def startServing_def completeService_def cancelQueue_def
  Queue_cancel_def Queue_create_def Queue_generateQueueNumber_def
  Queue_calculateQueuePosition_def service_time_or_5_def insert_queue_entry_def
  Queue_logQueueAction_def Queue_findByUserAndService_def Queue_findById_def
  Counter_findById_def Counter_getNextWaitingQueue_def Counter_setCurrentServing_def
  Counter_updateStatus_def update_queue_entries_def returning_first_def
  getSystemSettings_def first_row_def no_faults_def shift_faults_def not_staff_def
  last_queue_today_def next_number_def service_prefix_def date_of_def
  key_lt_def Let_def

lemma replicate_numeral: "replicate (numeral k) x = x # replicate (pred_numeral k) x"
  by (simp add: numeral_eq_Suc)

lemmas string_defs = replicate_numeral
  trim_def is_space_def toUpperCase_def upper_char_def padStart_def Number_toString_def
  nat_to_string.simps digit_char_def parseInt_def digit_value_def digits_value_def js_plus_def

lemma db_requested1_eq:
  "db_requested1 =
     \<lparr>services =
         [\<lparr>svc_id = 1, svc_name = ''Registrar'', queue_prefix = Some ''REG'',
             estimated_service_time = Some 10, is_active = True\<rparr>],
         users = [1, 2],
         counters =
           [\<lparr>c_id = 1, c_service_id = 1, counter_number = 1, c_status = Open,
               current_serving_queue_id = None\<rparr>],
         queue_entries =
           [\<lparr>qe_id = 1, user_id = 1, service_id = 1, queue_number = ''REG-001'',
               queue_position = 1, status = Waiting, counter_id = None,
               estimated_wait_time = 10, requested_at = 100, called_at = None,
               started_serving_at = None, completed_at = None,
               cancelled_at = None\<rparr>],
         queue_logs =
           [\<lparr>log_queue_entry_id = 1, log_service_id = 1, log_counter_id = None,
               log_action = ''created''\<rparr>],
         queue_entries_id_seq = 1, system_settings = None, time_zone = (\<lambda>t. 0)\<rparr>"
  unfolding db_requested1_def db0_def registrar_def by (simp add: handler_defs string_defs)

lemma db_requested2_eq:
  "db_requested2 =
     \<lparr>services =
         [\<lparr>svc_id = 1, svc_name = ''Registrar'', queue_prefix = Some ''REG'',
             estimated_service_time = Some 10, is_active = True\<rparr>],
         users = [1, 2],
         counters =
           [\<lparr>c_id = 1, c_service_id = 1, counter_number = 1, c_status = Open,
               current_serving_queue_id = None\<rparr>],
         queue_entries =
           [\<lparr>qe_id = 1, user_id = 1, service_id = 1, queue_number = ''REG-001'',
               queue_position = 1, status = Waiting, counter_id = None,
               estimated_wait_time = 10, requested_at = 100, called_at = None,
               started_serving_at = None, completed_at = None,
               cancelled_at = None\<rparr>,
            \<lparr>qe_id = 2, user_id = 2, service_id = 1, queue_number = ''REG-002'',
               queue_position = 2, status = Waiting, counter_id = None,
               estimated_wait_time = 20, requested_at = 101, called_at = None,
               started_serving_at = None, completed_at = None,
               cancelled_at = None\<rparr>],
         queue_logs =
           [\<lparr>log_queue_entry_id = 1, log_service_id = 1, log_counter_id = None,
               log_action = ''created''\<rparr>,
            \<lparr>log_queue_entry_id = 2, log_service_id = 1, log_counter_id = None,
               log_action = ''created''\<rparr>],
         queue_entries_id_seq = 2, system_settings = None, time_zone = (\<lambda>t. 0)\<rparr>"
  unfolding db_requested2_def db_requested1_eq by (simp add: handler_defs string_defs)

lemma db_called_eq:
  "db_called =
     \<lparr>services =
         [\<lparr>svc_id = 1, svc_name = ''Registrar'', queue_prefix = Some ''REG'',
             estimated_service_time = Some 10, is_active = True\<rparr>],
         users = [1, 2],
         counters =
           [\<lparr>c_id = 1, c_service_id = 1, counter_number = 1, c_status = Busy,
               current_serving_queue_id = Some 1\<rparr>],
         queue_entries =
           [\<lparr>qe_id = 1, user_id = 1, service_id = 1, queue_number = ''REG-001'',
               queue_position = 1, status = Called, counter_id = Some 1,
               estimated_wait_time = 10, requested_at = 100,
               called_at = Some 110, started_serving_at = None,
               completed_at = None, cancelled_at = None\<rparr>,
            \<lparr>qe_id = 2, user_id = 2, service_id = 1, queue_number = ''REG-002'',
               queue_position = 2, status = Waiting, counter_id = None,
               estimated_wait_time = 20, requested_at = 101, called_at = None,
               started_serving_at = None, completed_at = None,
               cancelled_at = None\<rparr>],
         queue_logs =
           [\<lparr>log_queue_entry_id = 1, log_service_id = 1, log_counter_id = None,
               log_action = ''created''\<rparr>,
            \<lparr>log_queue_entry_id = 2, log_service_id = 1, log_counter_id = None,
               log_action = ''created''\<rparr>,
            \<lparr>log_queue_entry_id = 1, log_service_id = 1, log_counter_id = Some 1,
               log_action = ''called''\<rparr>],
         queue_entries_id_seq = 2, system_settings = None, time_zone = (\<lambda>t. 0)\<rparr>"
  unfolding db_called_def db_requested2_eq by (simp add: handler_defs string_defs)

lemma db_serving_eq:
  "db_serving =
     \<lparr>services =
         [\<lparr>svc_id = 1, svc_name = ''Registrar'', queue_prefix = Some ''REG'',
             estimated_service_time = Some 10, is_active = True\<rparr>],
         users = [1, 2],
         counters =
           [\<lparr>c_id = 1, c_service_id = 1, counter_number = 1, c_status = Busy,
               current_serving_queue_id = Some 1\<rparr>],
         queue_entries =
           [\<lparr>qe_id = 1, user_id = 1, service_id = 1, queue_number = ''REG-001'',
               queue_position = 1, status = Serving, counter_id = Some 1,
               estimated_wait_time = 10, requested_at = 100,
               called_at = Some 110, started_serving_at = Some 120,
               completed_at = None, cancelled_at = None\<rparr>,
            \<lparr>qe_id = 2, user_id = 2, service_id = 1, queue_number = ''REG-002'',
               queue_position = 2, status = Waiting, counter_id = None,
               estimated_wait_time = 20, requested_at = 101, called_at = None,
               started_serving_at = None, completed_at = None,
               cancelled_at = None\<rparr>],
         queue_logs =
           [\<lparr>log_queue_entry_id = 1, log_service_id = 1, log_counter_id = None,
               log_action = ''created''\<rparr>,
            \<lparr>log_queue_entry_id = 2, log_service_id = 1, log_counter_id = None,
               log_action = ''created''\<rparr>,
            \<lparr>log_queue_entry_id = 1, log_service_id = 1, log_counter_id = Some 1,
               log_action = ''called''\<rparr>,
            \<lparr>log_queue_entry_id = 1, log_service_id = 1, log_counter_id = Some 1,
               log_action = ''started''\<rparr>],
         queue_entries_id_seq = 2, system_settings = None, time_zone = (\<lambda>t. 0)\<rparr>"
  unfolding db_serving_def db_called_eq by (simp add: handler_defs string_defs)

lemma db_completed_eq:
  "db_completed =
     \<lparr>services =
         [\<lparr>svc_id = 1, svc_name = ''Registrar'', queue_prefix = Some ''REG'',
             estimated_service_time = Some 10, is_active = True\<rparr>],
         users = [1, 2],
         counters =
           [\<lparr>c_id = 1, c_service_id = 1, counter_number = 1, c_status = Open,
               current_serving_queue_id = None\<rparr>],
         queue_entries =
           [\<lparr>qe_id = 1, user_id = 1, service_id = 1, queue_number = ''REG-001'',
               queue_position = 1, status = Completed, counter_id = Some 1,
               estimated_wait_time = 10, requested_at = 100,
               called_at = Some 110, started_serving_at = Some 120,
               completed_at = Some 130, cancelled_at = None\<rparr>,
            \<lparr>qe_id = 2, user_id = 2, service_id = 1, queue_number = ''REG-002'',
               queue_position = 2, status = Waiting, counter_id = None,
               estimated_wait_time = 20, requested_at = 101, called_at = None,
               started_serving_at = None, completed_at = None,
               cancelled_at = None\<rparr>],
         queue_logs =
           [\<lparr>log_queue_entry_id = 1, log_service_id = 1, log_counter_id = None,
               log_action = ''created''\<rparr>,
            \<lparr>log_queue_entry_id = 2, log_service_id = 1, log_counter_id = None,
               log_action = ''created''\<rparr>,
            \<lparr>log_queue_entry_id = 1, log_service_id = 1, log_counter_id = Some 1,
               log_action = ''called''\<rparr>,
            \<lparr>log_queue_entry_id = 1, log_service_id = 1, log_counter_id = Some 1,
               log_action = ''started''\<rparr>,
            \<lparr>log_queue_entry_id = 1, log_service_id = 1, log_counter_id = Some 1,
               log_action = ''completed''\<rparr>],
         queue_entries_id_seq = 2, system_settings = None, time_zone = (\<lambda>t. 0)\<rparr>"
  unfolding db_completed_def db_serving_eq by (simp add: handler_defs string_defs)

lemma db_requested3_eq:
  "db_requested3 =
     \<lparr>services =
         [\<lparr>svc_id = 1, svc_name = ''Registrar'', queue_prefix = Some ''REG'',
             estimated_service_time = Some 10, is_active = True\<rparr>],
         users = [1, 2],
         counters =
           [\<lparr>c_id = 1, c_service_id = 1, counter_number = 1, c_status = Open,
               current_serving_queue_id = None\<rparr>],
         queue_entries =
           [\<lparr>qe_id = 1, user_id = 1, service_id = 1, queue_number = ''REG-001'',
               queue_position = 1, status = Completed, counter_id = Some 1,
               estimated_wait_time = 10, requested_at = 100,
               called_at = Some 110, started_serving_at = Some 120,
               completed_at = Some 130, cancelled_at = None\<rparr>,
            \<lparr>qe_id = 2, user_id = 2, service_id = 1, queue_number = ''REG-002'',
               queue_position = 2, status = Waiting, counter_id = None,
               estimated_wait_time = 20, requested_at = 101, called_at = None,
               started_serving_at = None, completed_at = None,
               cancelled_at = None\<rparr>,
            \<lparr>qe_id = 3, user_id = 1, service_id = 1, queue_number = ''REG-003'',
               queue_position = 2, status = Waiting, counter_id = None,
               estimated_wait_time = 20, requested_at = 140, called_at = None,
               started_serving_at = None, completed_at = None,
               cancelled_at = None\<rparr>],
         queue_logs =
           [\<lparr>log_queue_entry_id = 1, log_service_id = 1, log_counter_id = None,
               log_action = ''created''\<rparr>,
            \<lparr>log_queue_entry_id = 2, log_service_id = 1, log_counter_id = None,
               log_action = ''created''\<rparr>,
            \<lparr>log_queue_entry_id = 1, log_service_id = 1, log_counter_id = Some 1,
               log_action = ''called''\<rparr>,
            \<lparr>log_queue_entry_id = 1, log_service_id = 1, log_counter_id = Some 1,
               log_action = ''started''\<rparr>,
            \<lparr>log_queue_entry_id = 1, log_service_id = 1, log_counter_id = Some 1,
               log_action = ''completed''\<rparr>,
            \<lparr>log_queue_entry_id = 3, log_service_id = 1, log_counter_id = None,
               log_action = ''created''\<rparr>],
         queue_entries_id_seq = 3, system_settings = None, time_zone = (\<lambda>t. 0)\<rparr>"
  unfolding db_requested3_def db_completed_eq by (simp add: handler_defs string_defs)

section \<open>Lookups and updates\<close>

lemma first_row_filter_None: "first_row (filter P xs) = None \<longleftrightarrow> (\<forall>x \<in> set xs. \<not> P x)"
  by (induction xs) (auto simp: first_row_def)

lemma first_row_filter_Some: "first_row (filter P xs) = Some x \<Longrightarrow> x \<in> set xs \<and> P x"
  by (induction xs) (auto simp: first_row_def split: if_splits)

lemma first_row_filter_key:
  "distinct (map k xs) \<Longrightarrow> x \<in> set xs \<Longrightarrow> k x = a \<Longrightarrow> P x \<Longrightarrow>
   first_row (filter (\<lambda>y. k y = a \<and> P y) xs) = Some x"
proof (induction xs)
  case Nil
  then show ?case by simp
next
  case (Cons y ys)
  show ?case
  proof (cases "y = x")
    case True
    with Cons.prems show ?thesis by (simp add: first_row_def)
  next
    case False
    with Cons.prems have "x \<in> set ys" and "k y \<noteq> a" by (auto simp: image_iff)
    with Cons show ?thesis by simp
  qed
qed

lemma returning_first_update:
  assumes "\<And>q. qe_id (upd q) = qe_id q"
  shows "returning_first (update_queue_entries d qid upd) qid = map_option upd (returning_first d qid)"
proof -
  have "first_row (filter (\<lambda>q. qe_id q = qid) (map (\<lambda>q. if qe_id q = qid then upd q else q) xs))
        = map_option upd (first_row (filter (\<lambda>q. qe_id q = qid) xs))" for xs
    by (induction xs) (auto simp: first_row_def assms)
  then show ?thesis by (simp add: returning_first_def update_queue_entries_def)
qed

lemma returning_first_exists:
  "q \<in> set (queue_entries d) \<Longrightarrow> \<exists>r. returning_first d (qe_id q) = Some r"
  using first_row_filter_None [of "\<lambda>x. qe_id x = qe_id q" "queue_entries d"]
  by (cases "returning_first d (qe_id q)") (auto simp: returning_first_def)

lemma cancelQueue_not_found:
  assumes "first_row (filter (\<lambda>q. qe_id q = qid \<and> user_id q = uid) (queue_entries d)) = None"
  shows "cancelQueue no_faults d now uid qid
         = (Inl (HttpError 400 ''Queue entry not found or access denied''), d)"
  using assms by (simp add: cancelQueue_def Queue_cancel_def no_faults_def)

lemma cancelQueue_terminal:
  assumes "first_row (filter (\<lambda>q. qe_id q = qid \<and> user_id q = uid) (queue_entries d)) = Some queue"
    and "status queue = Completed \<or> status queue = Cancelled"
  shows "cancelQueue no_faults d now uid qid
         = (Inl (HttpError 400 ''Queue entry cannot be cancelled''), d)"
  using assms by (simp add: cancelQueue_def Queue_cancel_def no_faults_def)

lemma cancelQueue_ok:
  assumes "first_row (filter (\<lambda>q. qe_id q = qid \<and> user_id q = uid) (queue_entries d)) = Some queue"
    and "status queue \<noteq> Completed" and "status queue \<noteq> Cancelled"
  shows "\<exists>r. cancelQueue no_faults d now uid qid
         = (Inr r, Queue_logQueueAction
               (update_queue_entries d qid (\<lambda>q. q\<lparr>status := Cancelled, cancelled_at := Some now\<rparr>))
               qid (service_id queue) (counter_id queue) ''cancelled'')"
proof -
  from assms(1) have "queue \<in> set (queue_entries d)" and "qe_id queue = qid"
    using first_row_filter_Some by fastforce+
  then obtain r0 where "returning_first d qid = Some r0"
    using returning_first_exists by blast
  then have "returning_first (update_queue_entries d qid
               (\<lambda>q. q\<lparr>status := Cancelled, cancelled_at := Some now\<rparr>)) qid
             = Some (r0\<lparr>status := Cancelled, cancelled_at := Some now\<rparr>)"
    by (simp add: returning_first_update)
  with assms show ?thesis
    by (simp add: cancelQueue_def Queue_cancel_def no_faults_def Let_def)
qed

section \<open>The cancel guard\<close>

text \<open>
  Claim C6, as amended. With queue entry ids unique (the primary key) and a healthy
  store, cancelling succeeds exactly when a queue entry with the given id belongs to
  the acting user and its status is waiting, called or serving: the guard of
  \<^verbatim>\<open>Queue.cancel\<close> rejects only completed and cancelled entries. Whenever cancelling
  fails, the store is unchanged.
\<close>

theorem cancel_guard:
  assumes "distinct (map qe_id (queue_entries d))"
  shows "(\<not> isl (fst (cancelQueue no_faults d now uid qid)))
           = (\<exists>q \<in> set (queue_entries d). qe_id q = qid \<and> user_id q = uid
                 \<and> status q \<in> {Waiting, Called, Serving})
         \<and> (isl (fst (cancelQueue no_faults d now uid qid))
              \<longrightarrow> snd (cancelQueue no_faults d now uid qid) = d)"
proof (cases "first_row (filter (\<lambda>q. qe_id q = qid \<and> user_id q = uid) (queue_entries d))")
  case None
  then have "\<forall>q \<in> set (queue_entries d). \<not> (qe_id q = qid \<and> user_id q = uid)"
    by (simp add: first_row_filter_None)
  with cancelQueue_not_found [OF None, of now] show ?thesis by auto
next
  case (Some queue)
  then have mem: "queue \<in> set (queue_entries d)" "qe_id queue = qid" "user_id queue = uid"
    using first_row_filter_Some by fastforce+
  have uniq: "q = queue" if "q \<in> set (queue_entries d)" "qe_id q = qid" for q
    using assms that mem by (metis distinct_map inj_onD)
  show ?thesis
  proof (cases "status queue = Completed \<or> status queue = Cancelled")
    case True
    with uniq have "\<not> (\<exists>q \<in> set (queue_entries d). qe_id q = qid \<and> user_id q = uid
                 \<and> status q \<in> {Waiting, Called, Serving})" by auto
    with cancelQueue_terminal [OF Some True, of now] show ?thesis by simp
  next
    case False
    then have "status queue \<in> {Waiting, Called, Serving}" by (cases "status queue") auto
    with mem have "\<exists>q \<in> set (queue_entries d). qe_id q = qid \<and> user_id q = uid
                 \<and> status q \<in> {Waiting, Called, Serving}" by blast
    moreover from cancelQueue_ok [OF Some, of now] False
    have "\<not> isl (fst (cancelQueue no_faults d now uid qid))" by auto
    ultimately show ?thesis by simp
  qed
qed

theorem cancel_guard_witness:
  "distinct (map qe_id (queue_entries db_completed))
   \<and> isl (fst (cancelQueue no_faults db_completed 135 1 1))
   \<and> snd (cancelQueue no_faults db_completed 135 1 1) = db_completed"
proof -
  have ids: "distinct (map qe_id (queue_entries db_completed))"
    by (simp add: db_completed_eq)
  have "\<not> (\<exists>q \<in> set (queue_entries db_completed). qe_id q = 1 \<and> user_id q = 1
                 \<and> status q \<in> {Waiting, Called, Serving})"
    by (simp add: db_completed_eq)
  with cancel_guard [OF ids, of 135 1 1] ids show ?thesis by blast
qed

text \<open>
  Claim C6 as stated lets only waiting and called tickets be cancelled. The ticket of
  user 1 is being served by counter 1; its owner cancels it and the handler succeeds.
\<close>

theorem cancel_serving_counterexample:
  "map status (queue_entries db_serving) = [Serving, Waiting]
   \<and> \<not> isl (fst (cancelQueue no_faults db_serving 125 1 1))
   \<and> map status (queue_entries (snd (cancelQueue no_faults db_serving 125 1 1)))
       = [Cancelled, Waiting]"
  unfolding db_serving_eq by (simp add: handler_defs)

section \<open>The frame of cancel\<close>

text \<open>
  Claim C10. A successful cancel rewrites only the status and \<^verbatim>\<open>cancelled_at\<close> of the
  queue entry with the given id and appends one log row with action \<^verbatim>\<open>cancelled\<close>.
  The counters are untouched: a counter that is busy with the cancelled ticket stays
  busy and keeps referring to it.
\<close>

theorem cancel_frame:
  assumes "cancelQueue f d now uid qid = (Inr r, d')"
  shows "queue_entries d'
           = map (\<lambda>q. if qe_id q = qid then q\<lparr>status := Cancelled, cancelled_at := Some now\<rparr> else q)
               (queue_entries d)
         \<and> (\<exists>row. queue_logs d' = queue_logs d @ [row] \<and> log_queue_entry_id row = qid
                \<and> log_action row = ''cancelled'')
         \<and> counters d' = counters d \<and> services d' = services d \<and> users d' = users d
         \<and> queue_entries_id_seq d' = queue_entries_id_seq d
         \<and> system_settings d' = system_settings d \<and> time_zone d' = time_zone d
         \<and> (\<forall>c \<in> set (counters d). c_status c = Busy \<and> current_serving_queue_id c = Some qid
               \<longrightarrow> c \<in> set (counters d'))"
  using assms
  by (auto simp: cancelQueue_def Queue_cancel_def Let_def Queue_logQueueAction_def
        update_queue_entries_def split: option.splits if_splits sum.splits exn.splits)

text \<open>Counter 1 has called ticket 1; user 1 cancels it.\<close>

theorem cancel_frame_witness:
  "map status (queue_entries db_called) = [Called, Waiting]
   \<and> \<not> isl (fst (cancelQueue no_faults db_called 115 1 1))
   \<and> map status (queue_entries db_cancelled) = [Cancelled, Waiting]
   \<and> counters db_cancelled
       = [\<lparr>c_id = 1, c_service_id = 1, counter_number = 1, c_status = Busy,
            current_serving_queue_id = Some 1\<rparr>]"
proof -
  have ok: "\<not> isl (fst (cancelQueue no_faults db_called 115 1 1))"
    unfolding db_called_eq by (simp add: handler_defs)
  then have run: "cancelQueue no_faults db_called 115 1 1
                  = (Inr (projr (fst (cancelQueue no_faults db_called 115 1 1))), db_cancelled)"
    by (simp add: db_cancelled_def prod_eq_iff)
  from cancel_frame [OF run]
  have "queue_entries db_cancelled
          = map (\<lambda>q. if qe_id q = 1 then q\<lparr>status := Cancelled, cancelled_at := Some 115\<rparr> else q)
              (queue_entries db_called)"
    and "counters db_cancelled = counters db_called"
    by simp_all
  with ok show ?thesis by (simp add: db_called_eq)
qed

section \<open>Transitions out of terminal states\<close>

text \<open>
  \<^verbatim>\<open>Queue.cancel\<close> refuses a completed or cancelled queue entry and leaves the store
  as it was.
\<close>

lemma cancel_terminal_rejected:
  assumes "distinct (map qe_id (queue_entries d))" and "q \<in> set (queue_entries d)"
    and "user_id q = uid" and "status q = Completed \<or> status q = Cancelled"
  shows "cancelQueue no_faults d now uid (qe_id q)
         = (Inl (HttpError 400 ''Queue entry cannot be cancelled''), d)"
proof -
  from assms(1-3)
  have "first_row (filter (\<lambda>y. qe_id y = qe_id q \<and> user_id y = uid) (queue_entries d)) = Some q"
    by (intro first_row_filter_key) simp_all
  from cancelQueue_terminal [OF this assms(4)] show ?thesis .
qed

text \<open>
  Claim C1 fails for start and complete: the two handlers compare the ticket's counter
  with the acting counter and never look at the status. Ticket 1 was called, served
  and completed at counter 1; start-serving on it succeeds and the ticket is being
  served again.
\<close>

theorem startServing_reopens_completed:
  "map status (queue_entries db_completed) = [Completed, Waiting]
   \<and> \<not> isl (fst (startServing no_faults db_completed 150 Counter_staff 1 1))
   \<and> map status (queue_entries (snd (startServing no_faults db_completed 150 Counter_staff 1 1)))
       = [Serving, Waiting]"
  unfolding db_completed_eq by (simp add: handler_defs)

text \<open>Likewise a ticket cancelled after the call can still be completed by its counter.\<close>

lemma completeService_on_cancelled:
  "map status (queue_entries db_cancelled) = [Cancelled, Waiting]
   \<and> \<not> isl (fst (completeService no_faults db_cancelled 150 Counter_staff 1 1))
   \<and> map status (queue_entries (snd (completeService no_faults db_cancelled 150 Counter_staff 1 1)))
       = [Completed, Waiting]"
  unfolding db_cancelled_def db_called_eq by (simp add: handler_defs)

section \<open>The next waiting ticket\<close>

lemma key_le_refl: "key_le a a"
  by (simp add: key_le_def)

lemma key_le_trans: "key_le a b \<Longrightarrow> key_le b c \<Longrightarrow> key_le a c"
  by (auto simp: key_le_def)

lemma key_lt_imp_le: "key_lt a b \<Longrightarrow> key_le a b"
  by (auto simp: key_lt_def key_le_def)

lemma not_key_lt_imp_le: "\<not> key_lt a b \<Longrightarrow> key_le b a"
  by (auto simp: key_lt_def key_le_def)

lemma key_le_cong:
  "key_le a b \<Longrightarrow> queue_position b' = queue_position b \<Longrightarrow> requested_at b' = requested_at b
   \<Longrightarrow> key_le a b'"
  by (simp add: key_le_def)

lemma order_by_limit1_None: "order_by_limit1 lt xs = None \<longleftrightarrow> xs = []"
  by (induction xs) (auto split: option.splits)

lemma order_by_limit1_mem: "order_by_limit1 lt xs = Some m \<Longrightarrow> m \<in> set xs"
  by (induction xs arbitrary: m) (auto split: option.splits if_splits)

lemma order_by_limit1_key_min:
  "order_by_limit1 key_lt xs = Some m \<Longrightarrow> x \<in> set xs \<Longrightarrow> key_le m x"
proof (induction xs arbitrary: m)
  case Nil
  then show ?case by simp
next
  case (Cons y ys)
  show ?case
  proof (cases "order_by_limit1 key_lt ys")
    case None
    then have "ys = []" by (simp add: order_by_limit1_None)
    with Cons.prems show ?thesis by (simp add: key_le_refl)
  next
    case (Some b)
    note best = Cons.IH [OF Some]
    show ?thesis
    proof (cases "key_lt b y")
      case True
      with Some Cons.prems(1) have "m = b" by simp
      with Cons.prems(2) best True show ?thesis by (auto intro: key_lt_imp_le)
    next
      case False
      with Some Cons.prems(1) have "m = y" by simp
      moreover from False have "key_le y b" by (rule not_key_lt_imp_le)
      ultimately show ?thesis
        using Cons.prems(2) best by (auto intro: key_le_refl key_le_trans)
    qed
  qed
qed

lemma getNextWaitingQueue_Some:
  assumes "Counter_getNextWaitingQueue d sid = Some m"
  shows "m \<in> set (queue_entries d) \<and> service_id m = sid \<and> status m = Waiting
         \<and> (\<forall>q \<in> set (queue_entries d). service_id q = sid \<and> status q = Waiting \<longrightarrow> key_le m q)"
proof -
  let ?ws = "filter (\<lambda>q. service_id q = sid \<and> status q = Waiting) (queue_entries d)"
  from assms have m: "order_by_limit1 key_lt ?ws = Some m"
    by (simp add: Counter_getNextWaitingQueue_def)
  then have "m \<in> set ?ws" by (rule order_by_limit1_mem)
  moreover have "key_le m q" if "q \<in> set ?ws" for q
    using m that by (rule order_by_limit1_key_min)
  ultimately show ?thesis by simp
qed

lemma getNextWaitingQueue_None:
  "Counter_getNextWaitingQueue d sid = None
   \<longleftrightarrow> (\<forall>q \<in> set (queue_entries d). \<not> (service_id q = sid \<and> status q = Waiting))"
  by (simp add: Counter_getNextWaitingQueue_def order_by_limit1_None filter_empty_conv)

lemma returning_first_distinct:
  assumes "distinct (map qe_id (queue_entries d))" and "q \<in> set (queue_entries d)"
  shows "returning_first d (qe_id q) = Some q"
  using first_row_filter_key [OF assms, of "qe_id q" "\<lambda>y. True"]
  by (simp add: returning_first_def)

lemma callNext_success:
  assumes "callNext f d now r counterId = (Inr t, d')"
    and "distinct (map qe_id (queue_entries d))"
  shows "\<exists>cnt nextQueue.
           \<not> not_staff r \<and> Counter_findById d counterId = Some cnt \<and> c_status cnt \<noteq> Closed
           \<and> Counter_getNextWaitingQueue d (c_service_id cnt) = Some nextQueue
           \<and> t = nextQueue\<lparr>status := Called, counter_id := Some counterId, called_at := Some now\<rparr>"
proof -
  from assms(1) obtain cnt nextQueue where
    a: "\<not> not_staff r" "Counter_findById d counterId = Some cnt" "c_status cnt \<noteq> Closed"
       "Counter_getNextWaitingQueue d (c_service_id cnt) = Some nextQueue"
    and b: "returning_first (update_queue_entries d (qe_id nextQueue)
              (\<lambda>q. q\<lparr>status := Called, counter_id := Some counterId, called_at := Some now\<rparr>))
              (qe_id nextQueue) = Some t"
    by (auto simp: callNext_def Let_def split: if_splits option.splits)
  from a(4) have "nextQueue \<in> set (queue_entries d)"
    using getNextWaitingQueue_Some by blast
  with assms(2) have "returning_first d (qe_id nextQueue) = Some nextQueue"
    by (rule returning_first_distinct)
  with b have "t = nextQueue\<lparr>status := Called, counter_id := Some counterId, called_at := Some now\<rparr>"
    by (simp add: returning_first_update)
  with a show ?thesis by blast
qed

lemma callNext_entries:
  "queue_entries (snd (callNext f d now r counterId)) = queue_entries d
   \<or> (\<exists>qid. queue_entries (snd (callNext f d now r counterId))
         = map (\<lambda>q. if qe_id q = qid
                     then q\<lparr>status := Called, counter_id := Some counterId, called_at := Some now\<rparr>
                     else q) (queue_entries d))"
  by (auto simp: callNext_def Let_def update_queue_entries_def Counter_setCurrentServing_def
        Counter_updateStatus_def Queue_logQueueAction_def split: option.splits)

lemma callNext_ids:
  "map qe_id (queue_entries (snd (callNext f d now r counterId))) = map qe_id (queue_entries d)"
  using callNext_entries [of f d now r counterId] by (auto simp: comp_def)

lemma callNext_waiting_shrinks:
  assumes "q \<in> set (queue_entries (snd (callNext f d now r counterId)))" and "status q = Waiting"
  shows "q \<in> set (queue_entries d)"
  using callNext_entries [of f d now r counterId] assms by (auto split: if_splits)

lemma call_repeatedly_from_waiting:
  assumes "distinct (map qe_id (queue_entries d))" and "t \<in> set (call_repeatedly d r calls)"
  shows "\<exists>q \<in> set (queue_entries d). status q = Waiting \<and> service_id q = service_id t
           \<and> queue_position q = queue_position t \<and> requested_at q = requested_at t"
  using assms
proof (induction calls arbitrary: d)
  case Nil
  then show ?case by simp
next
  case (Cons c calls)
  obtain now counterId where c: "c = (now, counterId)" by (cases c)
  obtain res d' where run: "callNext no_faults d now r counterId = (res, d')"
    by (cases "callNext no_faults d now r counterId")
  have d': "d' = snd (callNext no_faults d now r counterId)" by (simp add: run)
  have ids: "distinct (map qe_id (queue_entries d'))"
    using Cons.prems(1) by (simp add: d' callNext_ids)
  have later: ?case if "t \<in> set (call_repeatedly d' r calls)"
  proof -
    from Cons.IH [OF ids that] obtain q where q: "q \<in> set (queue_entries d')" "status q = Waiting"
      "service_id q = service_id t" "queue_position q = queue_position t"
      "requested_at q = requested_at t" by blast
    from q(1,2) have "q \<in> set (queue_entries d)"
      unfolding d' by (rule callNext_waiting_shrinks)
    with q show ?thesis by blast
  qed
  show ?case
  proof (cases res)
    case (Inl e)
    with Cons.prems(2) c run have "t \<in> set (call_repeatedly d' r calls)" by simp
    then show ?thesis by (rule later)
  next
    case (Inr t0)
    with Cons.prems(2) c run have "t = t0 \<or> t \<in> set (call_repeatedly d' r calls)" by auto
    then show ?thesis
    proof
      assume "t = t0"
      with run Inr have "callNext no_faults d now r counterId = (Inr t, d')" by simp
      from callNext_success [OF this Cons.prems(1)] obtain cnt :: counter and nextQueue where
        nq: "Counter_getNextWaitingQueue d (c_service_id cnt) = Some nextQueue"
        and t: "t = nextQueue\<lparr>status := Called, counter_id := Some counterId, called_at := Some now\<rparr>"
        by blast
      from getNextWaitingQueue_Some [OF nq] t show ?thesis by auto
    next
      assume "t \<in> set (call_repeatedly d' r calls)"
      then show ?thesis by (rule later)
    qed
  qed
qed

lemma callNext_returns_minimum:
  assumes "callNext f d now r counterId = (Inr t, d')"
    and "distinct (map qe_id (queue_entries d))"
    and "q \<in> set (queue_entries d)" and "status q = Waiting" and "service_id q = service_id t"
  shows "key_le t q"
proof -
  from callNext_success [OF assms(1,2)] obtain cnt :: counter and nextQueue where
    nq: "Counter_getNextWaitingQueue d (c_service_id cnt) = Some nextQueue"
    and t: "t = nextQueue\<lparr>status := Called, counter_id := Some counterId, called_at := Some now\<rparr>"
    by blast
  from getNextWaitingQueue_Some [OF nq] assms(3-5) t have "key_le nextQueue q" by auto
  with t show ?thesis by (simp add: key_le_def)
qed

lemma call_repeatedly_sorted:
  assumes "distinct (map qe_id (queue_entries d))"
  shows "sorted_wrt key_le (filter (\<lambda>t. service_id t = sid) (call_repeatedly d r calls))"
  using assms
proof (induction calls arbitrary: d)
  case Nil
  then show ?case by simp
next
  case (Cons c calls)
  obtain now counterId where c: "c = (now, counterId)" by (cases c)
  obtain res d' where run: "callNext no_faults d now r counterId = (res, d')"
    by (cases "callNext no_faults d now r counterId")
  have d': "d' = snd (callNext no_faults d now r counterId)" by (simp add: run)
  have ids: "distinct (map qe_id (queue_entries d'))"
    using Cons.prems by (simp add: d' callNext_ids)
  note rest = Cons.IH [OF ids]
  show ?case
  proof (cases res)
    case (Inl e)
    with c run rest show ?thesis by simp
  next
    case (Inr t0)
    have "key_le t0 t" if "t \<in> set (call_repeatedly d' r calls)" "service_id t = service_id t0" for t
    proof -
      from call_repeatedly_from_waiting [OF ids that(1)] obtain q where
        q: "q \<in> set (queue_entries d')" "status q = Waiting" "service_id q = service_id t"
           "queue_position q = queue_position t" "requested_at q = requested_at t" by blast
      from q(1,2) have "q \<in> set (queue_entries d)"
        unfolding d' by (rule callNext_waiting_shrinks)
      with run Inr Cons.prems q(2,3) that(2) have "key_le t0 q"
        by (intro callNext_returns_minimum [of no_faults d now r counterId t0 d']) simp_all
      with q(4,5) show ?thesis by (simp add: key_le_def)
    qed
    with c run Inr rest show ?thesis by auto
  qed
qed

text \<open>
  Claim C3. Whenever a service has a waiting ticket, the next-waiting query returns a
  waiting ticket of that service whose (queue_position, requested_at) is minimal among
  them. Hence the tickets that a run of call-next requests returns for one service come
  in non-decreasing (queue_position, requested_at) order. Ticket ids are unique (the
  primary key).
\<close>

theorem next_waiting_minimal_and_ordered:
  assumes "distinct (map qe_id (queue_entries d))"
  shows "((\<exists>q \<in> set (queue_entries d). service_id q = sid \<and> status q = Waiting) \<longrightarrow>
            (\<exists>m \<in> set (queue_entries d). Counter_getNextWaitingQueue d sid = Some m
                \<and> service_id m = sid \<and> status m = Waiting
                \<and> (\<forall>q \<in> set (queue_entries d). service_id q = sid \<and> status q = Waiting
                      \<longrightarrow> key_le m q)))
         \<and> sorted_wrt key_le (filter (\<lambda>t. service_id t = sid) (call_repeatedly d r calls))"
proof (intro conjI impI)
  assume "\<exists>q \<in> set (queue_entries d). service_id q = sid \<and> status q = Waiting"
  then have "Counter_getNextWaitingQueue d sid \<noteq> None"
    by (simp add: getNextWaitingQueue_None)
  then obtain m where "Counter_getNextWaitingQueue d sid = Some m" by blast
  with getNextWaitingQueue_Some [OF this]
  show "\<exists>m \<in> set (queue_entries d). Counter_getNextWaitingQueue d sid = Some m
          \<and> service_id m = sid \<and> status m = Waiting
          \<and> (\<forall>q \<in> set (queue_entries d). service_id q = sid \<and> status q = Waiting \<longrightarrow> key_le m q)"
    by blast
next
  from assms show "sorted_wrt key_le (filter (\<lambda>t. service_id t = sid) (call_repeatedly d r calls))"
    by (rule call_repeatedly_sorted)
qed

text \<open>Two waiting tickets, three calls by counter 1: ticket 1, then ticket 2, then none.\<close>

theorem next_waiting_minimal_and_ordered_witness:
  "distinct (map qe_id (queue_entries db_requested2))
   \<and> map qe_id (filter (\<lambda>q. service_id q = 1 \<and> status q = Waiting) (queue_entries db_requested2))
       = [1, 2]
   \<and> map_option qe_id (Counter_getNextWaitingQueue db_requested2 1) = Some 1
   \<and> map qe_id (call_repeatedly db_requested2 Counter_staff [(110, 1), (111, 1), (112, 1)]) = [1, 2]
   \<and> sorted_wrt key_le
       (filter (\<lambda>t. service_id t = 1)
          (call_repeatedly db_requested2 Counter_staff [(110, 1), (111, 1), (112, 1)]))"
proof -
  have ids: "distinct (map qe_id (queue_entries db_requested2))"
    by (simp add: db_requested2_eq)
  have ev: "map qe_id (filter (\<lambda>q. service_id q = 1 \<and> status q = Waiting)
                         (queue_entries db_requested2)) = [1, 2]"
    "map_option qe_id (Counter_getNextWaitingQueue db_requested2 1) = Some 1"
    "map qe_id (call_repeatedly db_requested2 Counter_staff [(110, 1), (111, 1), (112, 1)]) = [1, 2]"
    unfolding db_requested2_eq by (simp_all add: handler_defs)
  from next_waiting_minimal_and_ordered [OF ids, of 1 Counter_staff "[(110, 1), (111, 1), (112, 1)]"]
  have "sorted_wrt key_le
       (filter (\<lambda>t. service_id t = 1)
          (call_repeatedly db_requested2 Counter_staff [(110, 1), (111, 1), (112, 1)]))"
    by blast
  with ids ev show ?thesis by blast
qed

section \<open>The guards of call-next\<close>

lemma Counter_findById_iff:
  assumes "distinct (map c_id (counters d))"
  shows "Counter_findById d cid = Some cnt
         \<longleftrightarrow> cnt \<in> set (counters d) \<and> c_id cnt = cid
             \<and> (\<exists>s \<in> set (services d). svc_id s = c_service_id cnt)"
proof
  assume "Counter_findById d cid = Some cnt"
  then show "cnt \<in> set (counters d) \<and> c_id cnt = cid
             \<and> (\<exists>s \<in> set (services d). svc_id s = c_service_id cnt)"
    unfolding Counter_findById_def by (rule first_row_filter_Some)
next
  assume "cnt \<in> set (counters d) \<and> c_id cnt = cid
          \<and> (\<exists>s \<in> set (services d). svc_id s = c_service_id cnt)"
  with assms show "Counter_findById d cid = Some cnt"
    unfolding Counter_findById_def by (simp add: first_row_filter_key)
qed

lemma Counter_findById_None:
  "Counter_findById d cid = None
   \<longleftrightarrow> (\<forall>c \<in> set (counters d). \<not> (c_id c = cid
                                       \<and> (\<exists>s \<in> set (services d). svc_id s = c_service_id c)))"
  unfolding Counter_findById_def by (rule first_row_filter_None)

lemma callNext_store:
  assumes "callNext f d now r counterId = (Inr t, d')"
    and "distinct (map qe_id (queue_entries d))"
  shows "\<exists>cnt nextQueue.
           Counter_findById d counterId = Some cnt
           \<and> Counter_getNextWaitingQueue d (c_service_id cnt) = Some nextQueue
           \<and> d' = Queue_logQueueAction
                    (Counter_updateStatus
                       (Counter_setCurrentServing
                          (update_queue_entries d (qe_id nextQueue)
                             (\<lambda>q. q\<lparr>status := Called, counter_id := Some counterId,
                                     called_at := Some now\<rparr>))
                          counterId (Some (qe_id nextQueue)))
                       counterId Busy)
                    (qe_id nextQueue) (c_service_id cnt) (Some counterId) ''called''"
proof -
  from assms(1) obtain cnt nextQueue where
    a: "Counter_findById d counterId = Some cnt"
       "Counter_getNextWaitingQueue d (c_service_id cnt) = Some nextQueue"
    and b: "returning_first (update_queue_entries d (qe_id nextQueue)
              (\<lambda>q. q\<lparr>status := Called, counter_id := Some counterId, called_at := Some now\<rparr>))
              (qe_id nextQueue) = Some t"
    and c: "d' = Queue_logQueueAction
                    (Counter_updateStatus
                       (Counter_setCurrentServing
                          (update_queue_entries d (qe_id nextQueue)
                             (\<lambda>q. q\<lparr>status := Called, counter_id := Some counterId,
                                     called_at := Some now\<rparr>))
                          counterId (Some (qe_id t)))
                       counterId Busy)
                    (qe_id t) (c_service_id cnt) (Some counterId) ''called''"
    by (auto simp: callNext_def Let_def split: if_splits option.splits)
  from a(2) have "nextQueue \<in> set (queue_entries d)"
    using getNextWaitingQueue_Some by blast
  with assms(2) have "returning_first d (qe_id nextQueue) = Some nextQueue"
    by (rule returning_first_distinct)
  with b have "qe_id t = qe_id nextQueue"
    by (auto simp: returning_first_update)
  with a c show ?thesis by (intro exI [of _ cnt] exI [of _ nextQueue]) simp
qed

lemma callNext_healthy:
  assumes "\<not> not_staff r" and "Counter_findById d counterId = Some cnt"
    and "c_status cnt \<noteq> Closed"
    and "Counter_getNextWaitingQueue d (c_service_id cnt) = Some nextQueue"
  shows "\<not> isl (fst (callNext no_faults d now r counterId))"
proof -
  from assms(4) have "nextQueue \<in> set (queue_entries d)"
    using getNextWaitingQueue_Some by blast
  then obtain r0 where "returning_first d (qe_id nextQueue) = Some r0"
    using returning_first_exists by blast
  then have "returning_first (update_queue_entries d (qe_id nextQueue)
               (\<lambda>q. q\<lparr>status := Called, counter_id := Some counterId, called_at := Some now\<rparr>))
               (qe_id nextQueue)
             = Some (r0\<lparr>status := Called, counter_id := Some counterId, called_at := Some now\<rparr>)"
    by (simp add: returning_first_update)
  with assms show ?thesis
    by (simp add: callNext_def no_faults_def Let_def)
qed

lemma callNext_refused:
  assumes "not_staff r \<or> Counter_findById d counterId = None
           \<or> (\<exists>cnt. Counter_findById d counterId = Some cnt
                 \<and> (c_status cnt = Closed
                     \<or> Counter_getNextWaitingQueue d (c_service_id cnt) = None))"
  shows "isl (fst (callNext f d now r counterId))"
  using assms by (auto simp: callNext_def Let_def)

text \<open>
  Claim C4, as amended. Ticket ids and counter ids are unique (the primary keys). With a
  healthy store a call-next request succeeds exactly when the caller is counter staff or
  an admin, a counter with the given id exists, belongs to an existing service and is not
  closed, and some ticket of that counter's service is waiting. Whenever a call succeeds,
  under any fault plan, the ticket it returns was a waiting ticket of the counter's own
  service, first among them by position and then request time, and it is returned in
  status called, assigned to the calling counter, called now; in the store exactly that
  ticket is rewritten in this way, the calling counter is set busy with its
  \<^verbatim>\<open>current_serving_queue_id\<close> overwritten by the id of the ticket, one log row with
  action called is appended, and nothing else changes. The handler never reads
  \<^verbatim>\<open>current_serving_queue_id\<close>, and a busy counter is not refused.
\<close>

theorem callNext_guards:
  assumes "distinct (map qe_id (queue_entries d))"
    and "distinct (map c_id (counters d))"
  shows "(\<not> isl (fst (callNext no_faults d now r counterId)))
           = ((r = Counter_staff \<or> r = Admin)
              \<and> (\<exists>cnt \<in> set (counters d). c_id cnt = counterId \<and> c_status cnt \<noteq> Closed
                    \<and> (\<exists>s \<in> set (services d). svc_id s = c_service_id cnt)
                    \<and> (\<exists>q \<in> set (queue_entries d).
                          status q = Waiting \<and> service_id q = c_service_id cnt)))
         \<and> (\<forall>f t d'. callNext f d now r counterId = (Inr t, d') \<longrightarrow>
               (r = Counter_staff \<or> r = Admin)
               \<and> (\<exists>cnt \<in> set (counters d). \<exists>q \<in> set (queue_entries d).
                      c_id cnt = counterId \<and> c_status cnt \<noteq> Closed
                      \<and> status q = Waiting \<and> service_id q = c_service_id cnt
                      \<and> (\<forall>w \<in> set (queue_entries d).
                            status w = Waiting \<and> service_id w = c_service_id cnt
                            \<longrightarrow> queue_position q < queue_position w
                                \<or> (queue_position q = queue_position w
                                    \<and> requested_at q \<le> requested_at w))
                      \<and> t = q\<lparr>status := Called, counter_id := Some counterId,
                                called_at := Some now\<rparr>
                      \<and> queue_entries d'
                          = map (\<lambda>x. if qe_id x = qe_id q
                                      then x\<lparr>status := Called, counter_id := Some counterId,
                                             called_at := Some now\<rparr>
                                      else x) (queue_entries d)
                      \<and> counters d'
                          = map (\<lambda>c. if c_id c = counterId
                                      then c\<lparr>current_serving_queue_id := Some (qe_id q),
                                             c_status := Busy\<rparr>
                                      else c) (counters d)
                      \<and> queue_logs d'
                          = queue_logs d
                            @ [\<lparr>log_queue_entry_id = qe_id q,
                                 log_service_id = c_service_id cnt,
                                 log_counter_id = Some counterId,
                                 log_action = ''called''\<rparr>])
               \<and> services d' = services d \<and> users d' = users d
               \<and> queue_entries_id_seq d' = queue_entries_id_seq d
               \<and> system_settings d' = system_settings d \<and> time_zone d' = time_zone d)"
proof (intro conjI allI impI)
  let ?ok = "(r = Counter_staff \<or> r = Admin)
              \<and> (\<exists>cnt \<in> set (counters d). c_id cnt = counterId \<and> c_status cnt \<noteq> Closed
                    \<and> (\<exists>s \<in> set (services d). svc_id s = c_service_id cnt)
                    \<and> (\<exists>q \<in> set (queue_entries d).
                          status q = Waiting \<and> service_id q = c_service_id cnt))"
  show "(\<not> isl (fst (callNext no_faults d now r counterId))) = ?ok"
  proof (cases ?ok)
    case True
    then obtain cnt :: counter where r: "\<not> not_staff r"
      and cnt: "cnt \<in> set (counters d)" "c_id cnt = counterId" "c_status cnt \<noteq> Closed"
        "\<exists>s \<in> set (services d). svc_id s = c_service_id cnt"
      and w: "\<exists>q \<in> set (queue_entries d). status q = Waiting \<and> service_id q = c_service_id cnt"
      by (auto simp: not_staff_def)
    from cnt have found: "Counter_findById d counterId = Some cnt"
      by (simp add: Counter_findById_iff [OF assms(2)])
    from w obtain nextQueue where
      "Counter_getNextWaitingQueue d (c_service_id cnt) = Some nextQueue"
      by (cases "Counter_getNextWaitingQueue d (c_service_id cnt)")
         (auto simp: getNextWaitingQueue_None)
    from callNext_healthy [OF r found cnt(3) this] True show ?thesis by simp
  next
    case False
    have "not_staff r \<or> Counter_findById d counterId = None
           \<or> (\<exists>cnt. Counter_findById d counterId = Some cnt
                 \<and> (c_status cnt = Closed
                     \<or> Counter_getNextWaitingQueue d (c_service_id cnt) = None))"
    proof (cases "Counter_findById d counterId")
      case None
      then show ?thesis by simp
    next
      case (Some cnt)
      then have cnt: "cnt \<in> set (counters d)" "c_id cnt = counterId"
        "\<exists>s \<in> set (services d). svc_id s = c_service_id cnt"
        by (simp_all add: Counter_findById_iff [OF assms(2)])
      with False have "not_staff r \<or> c_status cnt = Closed
        \<or> (\<forall>q \<in> set (queue_entries d). \<not> (service_id q = c_service_id cnt \<and> status q = Waiting))"
        by (auto simp: not_staff_def)
      with Some show ?thesis by (simp add: getNextWaitingQueue_None)
    qed
    from callNext_refused [OF this] False show ?thesis by simp
  qed
next
  fix f t d'
  assume run: "callNext f d now r counterId = (Inr t, d')"
  from callNext_success [OF run assms(1)] callNext_store [OF run assms(1)]
  obtain cnt :: counter and q where
    a: "\<not> not_staff r" "Counter_findById d counterId = Some cnt" "c_status cnt \<noteq> Closed"
       "Counter_getNextWaitingQueue d (c_service_id cnt) = Some q"
    and t: "t = q\<lparr>status := Called, counter_id := Some counterId, called_at := Some now\<rparr>"
    and d': "d' = Queue_logQueueAction
                    (Counter_updateStatus
                       (Counter_setCurrentServing
                          (update_queue_entries d (qe_id q)
                             (\<lambda>q. q\<lparr>status := Called, counter_id := Some counterId,
                                     called_at := Some now\<rparr>))
                          counterId (Some (qe_id q)))
                       counterId Busy)
                    (qe_id q) (c_service_id cnt) (Some counterId) ''called''"
    by auto
  from a(1) show "r = Counter_staff \<or> r = Admin" by (simp add: not_staff_def)
  from a(2) have cnt: "cnt \<in> set (counters d)" "c_id cnt = counterId"
    by (simp_all add: Counter_findById_iff [OF assms(2)])
  from getNextWaitingQueue_Some [OF a(4)]
  have q: "q \<in> set (queue_entries d)" "service_id q = c_service_id cnt" "status q = Waiting"
    and least: "\<forall>w \<in> set (queue_entries d).
                  status w = Waiting \<and> service_id w = c_service_id cnt
                  \<longrightarrow> queue_position q < queue_position w
                      \<or> (queue_position q = queue_position w \<and> requested_at q \<le> requested_at w)"
    by (auto simp: key_le_def)
  have entries: "queue_entries d'
      = map (\<lambda>x. if qe_id x = qe_id q
                  then x\<lparr>status := Called, counter_id := Some counterId, called_at := Some now\<rparr>
                  else x) (queue_entries d)"
    and counters: "counters d'
      = map (\<lambda>c. if c_id c = counterId
                  then c\<lparr>current_serving_queue_id := Some (qe_id q), c_status := Busy\<rparr>
                  else c) (counters d)"
    and logs: "queue_logs d'
      = queue_logs d @ [\<lparr>log_queue_entry_id = qe_id q, log_service_id = c_service_id cnt,
                          log_counter_id = Some counterId, log_action = ''called''\<rparr>]"
    by (simp_all add: d' Queue_logQueueAction_def Counter_updateStatus_def
          Counter_setCurrentServing_def update_queue_entries_def comp_def if_distrib cong: if_cong)
  from cnt a(3) q least t entries counters logs
  show "\<exists>cnt \<in> set (counters d). \<exists>q \<in> set (queue_entries d).
          c_id cnt = counterId \<and> c_status cnt \<noteq> Closed
          \<and> status q = Waiting \<and> service_id q = c_service_id cnt
          \<and> (\<forall>w \<in> set (queue_entries d).
                status w = Waiting \<and> service_id w = c_service_id cnt
                \<longrightarrow> queue_position q < queue_position w
                    \<or> (queue_position q = queue_position w \<and> requested_at q \<le> requested_at w))
          \<and> t = q\<lparr>status := Called, counter_id := Some counterId, called_at := Some now\<rparr>
          \<and> queue_entries d'
              = map (\<lambda>x. if qe_id x = qe_id q
                          then x\<lparr>status := Called, counter_id := Some counterId,
                                 called_at := Some now\<rparr>
                          else x) (queue_entries d)
          \<and> counters d'
              = map (\<lambda>c. if c_id c = counterId
                          then c\<lparr>current_serving_queue_id := Some (qe_id q), c_status := Busy\<rparr>
                          else c) (counters d)
          \<and> queue_logs d'
              = queue_logs d
                @ [\<lparr>log_queue_entry_id = qe_id q, log_service_id = c_service_id cnt,
                     log_counter_id = Some counterId, log_action = ''called''\<rparr>]"
    by blast
  show "services d' = services d" "users d' = users d"
    "queue_entries_id_seq d' = queue_entries_id_seq d"
    "system_settings d' = system_settings d" "time_zone d' = time_zone d"
    by (simp_all add: d' Queue_logQueueAction_def Counter_updateStatus_def
          Counter_setCurrentServing_def update_queue_entries_def)
qed

text \<open>
  In the hall a student is refused, and so are the closed counter 2, counter 4 whose
  service is missing and a counter 5 that does not exist. Counter 3, busy with ticket 9,
  is given ticket 12 of its own service, the one with the smaller position; the
  registrar's ticket 10 and the other counters are untouched.
\<close>

theorem callNext_guards_witness:
  "distinct (map qe_id (queue_entries db_hall))
   \<and> distinct (map c_id (counters db_hall))
   \<and> isl (fst (callNext no_faults db_hall 110 Student 3))
   \<and> isl (fst (callNext no_faults db_hall 110 Counter_staff 2))
   \<and> isl (fst (callNext no_faults db_hall 110 Counter_staff 4))
   \<and> isl (fst (callNext no_faults db_hall 110 Counter_staff 5))
   \<and> \<not> isl (fst (callNext no_faults db_hall 110 Counter_staff 3))
   \<and> map qe_id (queue_entries db_hall) = [10, 11, 12]
   \<and> map status (queue_entries db_hall) = [Waiting, Waiting, Waiting]
   \<and> qe_id (projr (fst (callNext no_faults db_hall 110 Counter_staff 3))) = 12
   \<and> map status (queue_entries (snd (callNext no_faults db_hall 110 Counter_staff 3)))
       = [Waiting, Waiting, Called]
   \<and> map counter_id (queue_entries (snd (callNext no_faults db_hall 110 Counter_staff 3)))
       = [None, None, Some 3]
   \<and> map c_status (counters (snd (callNext no_faults db_hall 110 Counter_staff 3)))
       = [Open, Closed, Busy, Open]
   \<and> map current_serving_queue_id
         (counters (snd (callNext no_faults db_hall 110 Counter_staff 3)))
       = [None, None, Some 12, None]"
proof -
  have ids: "distinct (map qe_id (queue_entries db_hall))"
    and cids: "distinct (map c_id (counters db_hall))"
    by (simp_all add: db_hall_def)
  note guards = callNext_guards [OF ids cids, of 110]
  have "isl (fst (callNext no_faults db_hall 110 Student 3))"
    using guards [of Student 3] by simp
  moreover have "isl (fst (callNext no_faults db_hall 110 Counter_staff 2))"
    using guards [of Counter_staff 2] by (simp add: db_hall_def registrar_def clinic_def)
  moreover have "isl (fst (callNext no_faults db_hall 110 Counter_staff 4))"
    using guards [of Counter_staff 4] by (simp add: db_hall_def registrar_def clinic_def)
  moreover have "isl (fst (callNext no_faults db_hall 110 Counter_staff 5))"
    using guards [of Counter_staff 5] by (simp add: db_hall_def registrar_def clinic_def)
  moreover have ok: "\<not> isl (fst (callNext no_faults db_hall 110 Counter_staff 3))"
    using guards [of Counter_staff 3] by (simp add: db_hall_def registrar_def clinic_def)
  moreover have "map qe_id (queue_entries db_hall) = [10, 11, 12]"
    "map status (queue_entries db_hall) = [Waiting, Waiting, Waiting]"
    by (simp_all add: db_hall_def)
  moreover have
    "qe_id (projr (fst (callNext no_faults db_hall 110 Counter_staff 3))) = 12
     \<and> map status (queue_entries (snd (callNext no_faults db_hall 110 Counter_staff 3)))
         = [Waiting, Waiting, Called]
     \<and> map counter_id (queue_entries (snd (callNext no_faults db_hall 110 Counter_staff 3)))
         = [None, None, Some 3]
     \<and> map c_status (counters (snd (callNext no_faults db_hall 110 Counter_staff 3)))
         = [Open, Closed, Busy, Open]
     \<and> map current_serving_queue_id
           (counters (snd (callNext no_faults db_hall 110 Counter_staff 3)))
         = [None, None, Some 12, None]"
  proof -
    from ok have run: "callNext no_faults db_hall 110 Counter_staff 3
                  = (Inr (projr (fst (callNext no_faults db_hall 110 Counter_staff 3))),
                     snd (callNext no_faults db_hall 110 Counter_staff 3))"
      by (simp add: prod_eq_iff)
    from guards [of Counter_staff 3] run obtain cnt :: counter and q where
      cnt: "cnt \<in> set (counters db_hall)" "c_id cnt = 3"
      and q: "q \<in> set (queue_entries db_hall)" "service_id q = c_service_id cnt"
        "\<forall>w \<in> set (queue_entries db_hall).
            status w = Waiting \<and> service_id w = c_service_id cnt
            \<longrightarrow> queue_position q < queue_position w
                \<or> (queue_position q = queue_position w \<and> requested_at q \<le> requested_at w)"
      and t: "projr (fst (callNext no_faults db_hall 110 Counter_staff 3))
              = q\<lparr>status := Called, counter_id := Some 3, called_at := Some 110\<rparr>"
      and after:
        "queue_entries (snd (callNext no_faults db_hall 110 Counter_staff 3))
           = map (\<lambda>x. if qe_id x = qe_id q
                       then x\<lparr>status := Called, counter_id := Some 3, called_at := Some 110\<rparr>
                       else x) (queue_entries db_hall)"
        "counters (snd (callNext no_faults db_hall 110 Counter_staff 3))
           = map (\<lambda>c. if c_id c = 3
                       then c\<lparr>current_serving_queue_id := Some (qe_id q), c_status := Busy\<rparr>
                       else c) (counters db_hall)"
      by blast
    from cnt have "c_service_id cnt = 2" by (auto simp: db_hall_def)
    with q have "qe_id q = 12" by (auto simp: db_hall_def)
    with t after show ?thesis by (simp add: db_hall_def)
  qed
  ultimately show ?thesis using ids cids by simp
qed

text \<open>
  Claim C4 as stated refuses a counter that is already serving. Counter 1 is busy with
  ticket 1, which it has called; it calls again and is given ticket 2, and its
  \<^verbatim>\<open>current_serving_queue_id\<close> now names ticket 2 while ticket 1 is still in status
  called.
\<close>

theorem callNext_busy_counterexample:
  "counters db_called
     = [\<lparr>c_id = 1, c_service_id = 1, counter_number = 1, c_status = Busy,
          current_serving_queue_id = Some 1\<rparr>]
   \<and> \<not> isl (fst (callNext no_faults db_called 115 Counter_staff 1))
   \<and> counters (snd (callNext no_faults db_called 115 Counter_staff 1))
       = [\<lparr>c_id = 1, c_service_id = 1, counter_number = 1, c_status = Busy,
            current_serving_queue_id = Some 2\<rparr>]
   \<and> map status (queue_entries (snd (callNext no_faults db_called 115 Counter_staff 1)))
       = [Called, Called]"
  unfolding db_called_eq by (simp add: handler_defs)

section \<open>Failed operations\<close>

text \<open>
  Claim C8 as stated promises that an operation that returns an error leaves no trace.
  The handlers issue their queries one by one, outside any transaction. Here the store
  rejects the fourth query of call-next (\<^verbatim>\<open>Counter.setCurrentServing\<close>): the handler
  answers 500, ticket 1 is already in status called, and counter 1 is still open with
  nothing to serve.
\<close>

theorem callNext_partial_write_counterexample:
  "isl (fst (callNext (store_fails_at 3) db_requested2 110 Counter_staff 1))
   \<and> map status (queue_entries db_requested2) = [Waiting, Waiting]
   \<and> map status (queue_entries (snd (callNext (store_fails_at 3) db_requested2 110 Counter_staff 1)))
       = [Called, Waiting]
   \<and> counters (snd (callNext (store_fails_at 3) db_requested2 110 Counter_staff 1))
       = [\<lparr>c_id = 1, c_service_id = 1, counter_number = 1, c_status = Open,
            current_serving_queue_id = None\<rparr>]"
  unfolding db_requested2_eq by (simp add: handler_defs store_fails_at_def)

lemma callNext_atomic:
  assumes "isl (fst (callNext f d now r counterId))" and "f 3 = None" "f 4 = None" "f 5 = None"
  shows "snd (callNext f d now r counterId) = d"
proof (cases "\<exists>cnt nextQueue. \<not> not_staff r \<and> f 0 = None \<and> Counter_findById d counterId = Some cnt
      \<and> c_status cnt \<noteq> Closed \<and> f 1 = None
      \<and> Counter_getNextWaitingQueue d (c_service_id cnt) = Some nextQueue \<and> f 2 = None")
  case True
  then obtain cnt :: counter and nextQueue where
    a: "\<not> not_staff r" "f 0 = None" "Counter_findById d counterId = Some cnt"
       "c_status cnt \<noteq> Closed" "f 1 = None"
       "Counter_getNextWaitingQueue d (c_service_id cnt) = Some nextQueue" "f 2 = None"
    by blast
  from a(6) have "nextQueue \<in> set (queue_entries d)"
    using getNextWaitingQueue_Some by blast
  then obtain r0 where "returning_first d (qe_id nextQueue) = Some r0"
    using returning_first_exists by blast
  then have "returning_first (update_queue_entries d (qe_id nextQueue)
                (\<lambda>q. q\<lparr>status := Called, counter_id := Some counterId, called_at := Some now\<rparr>))
                (qe_id nextQueue)
             = Some (r0\<lparr>status := Called, counter_id := Some counterId, called_at := Some now\<rparr>)"
    by (simp add: returning_first_update)
  with a assms have False by (simp add: callNext_def Let_def)
  then show ?thesis ..
next
  case False
  then show ?thesis
    by (auto simp: callNext_def Let_def split: option.splits)
qed


lemma Queue_findById_Some:
  "Queue_findById d qid = Some q \<Longrightarrow> q \<in> set (queue_entries d) \<and> qe_id q = qid"
  unfolding Queue_findById_def by (drule first_row_filter_Some) simp

lemma returning_first_after_update:
  assumes "q \<in> set (queue_entries d)" and "\<And>x. qe_id (upd x) = qe_id x"
  shows "\<exists>u. returning_first (update_queue_entries d (qe_id q) upd) (qe_id q) = Some u"
proof -
  from assms(1) obtain r0 where "returning_first d (qe_id q) = Some r0"
    using returning_first_exists by blast
  with assms(2) show ?thesis by (simp add: returning_first_update)
qed

lemma startServing_atomic:
  assumes "isl (fst (startServing f d now r counterId queueId))" and "f 3 = None"
  shows "snd (startServing f d now r counterId queueId) = d"
proof (cases "Queue_findById d queueId")
  case None
  then show ?thesis
    by (auto simp: startServing_def Let_def split: option.splits)
next
  case (Some q)
  then have "q \<in> set (queue_entries d)" "qe_id q = queueId"
    using Queue_findById_Some by blast+
  then obtain u where "returning_first (update_queue_entries d queueId
         (\<lambda>q. q\<lparr>status := Serving, started_serving_at := Some now\<rparr>)) queueId = Some u"
    using returning_first_after_update
      [of q d "\<lambda>q. q\<lparr>status := Serving, started_serving_at := Some now\<rparr>"] by auto
  with Some assms show ?thesis
    by (auto simp: startServing_def Let_def split: option.splits if_splits)
qed

lemma completeService_atomic:
  assumes "isl (fst (completeService f d now r counterId queueId))"
    and "f 3 = None" "f 4 = None" "f 5 = None"
  shows "snd (completeService f d now r counterId queueId) = d"
proof (cases "Queue_findById d queueId")
  case None
  then show ?thesis
    by (auto simp: completeService_def Let_def split: option.splits)
next
  case (Some q)
  then have "q \<in> set (queue_entries d)" "qe_id q = queueId"
    using Queue_findById_Some by blast+
  then obtain u where "returning_first (update_queue_entries d queueId
         (\<lambda>q. q\<lparr>status := Completed, completed_at := Some now\<rparr>)) queueId = Some u"
    using returning_first_after_update
      [of q d "\<lambda>q. q\<lparr>status := Completed, completed_at := Some now\<rparr>"] by auto
  with Some assms show ?thesis
    by (auto simp: completeService_def Let_def split: option.splits if_splits)
qed

lemma cancelQueue_atomic:
  assumes "isl (fst (cancelQueue f d now userId queueId))" and "f 2 = None"
  shows "snd (cancelQueue f d now userId queueId) = d"
proof (cases "first_row (filter (\<lambda>q. qe_id q = queueId \<and> user_id q = userId) (queue_entries d))")
  case None
  then show ?thesis
    by (auto simp: cancelQueue_def Queue_cancel_def Let_def split: option.splits)
next
  case (Some q)
  then have "q \<in> set (queue_entries d)" "qe_id q = queueId"
    using first_row_filter_Some by fastforce+
  then obtain u where "returning_first (update_queue_entries d queueId
         (\<lambda>q. q\<lparr>status := Cancelled, cancelled_at := Some now\<rparr>)) queueId = Some u"
    using returning_first_after_update
      [of q d "\<lambda>q. q\<lparr>status := Cancelled, cancelled_at := Some now\<rparr>"] by auto
  with Some assms show ?thesis
    by (auto simp: cancelQueue_def Queue_cancel_def Let_def split: option.splits if_splits)
qed

lemma Queue_create_atomic:
  assumes "Queue_create f d now userId serviceId = (Inl e, d')" and "f 5 = None"
  shows "d' = d"
  using assms
  by (auto simp: Queue_create_def Let_def insert_queue_entry_def
        split: sum.splits option.splits prod.splits)

lemma requestQueue_cases:
  "snd (requestQueue f d now userId serviceIdOpt) = d
   \<or> (\<exists>serviceId. requestQueue f d now userId serviceIdOpt
         = (case Queue_create (shift_faults 3 f) d now userId serviceId of
              (Inl e, d') \<Rightarrow> (Inl (HttpError 500 ''Error creating queue entry''), d')
            | (Inr queueEntry, d') \<Rightarrow> (Inr queueEntry, d')))"
  unfolding requestQueue_def Let_def
  by (cases serviceIdOpt; cases "getSystemSettings (f 0) d")
     (auto split: option.splits)

lemma requestQueue_atomic:
  assumes "isl (fst (requestQueue f d now userId serviceIdOpt))" and "f 8 = None"
  shows "snd (requestQueue f d now userId serviceIdOpt) = d"
  using requestQueue_cases [of f d now userId serviceIdOpt]
proof (elim disjE exE)
  fix serviceId
  assume run: "requestQueue f d now userId serviceIdOpt
         = (case Queue_create (shift_faults 3 f) d now userId serviceId of
              (Inl e, d') \<Rightarrow> (Inl (HttpError 500 ''Error creating queue entry''), d')
            | (Inr queueEntry, d') \<Rightarrow> (Inr queueEntry, d'))"
  obtain res d' where c: "Queue_create (shift_faults 3 f) d now userId serviceId = (res, d')"
    by (cases "Queue_create (shift_faults 3 f) d now userId serviceId")
  show ?thesis
  proof (cases res)
    case (Inl e)
    with c have "Queue_create (shift_faults 3 f) d now userId serviceId = (Inl e, d')" by simp
    from Queue_create_atomic [OF this] assms(2) have "d' = d" by (simp add: shift_faults_def)
    with run c Inl show ?thesis by simp
  next
    case (Inr q)
    with run c assms(1) show ?thesis by simp
  qed
qed

text \<open>
  Claim C8, as amended. When request, call-next, start-serving, complete or cancel
  returns an error and the store rejected none of the queries that the handler issues
  after its first write, the store is exactly as it was before the call. (The queries are
  numbered from 0 in the order the handler issues them; the first write is query 7 of
  request, query 2 of call-next, start-serving and complete, query 1 of cancel.)
\<close>

theorem failed_operations_atomic:
  "(isl (fst (requestQueue f d now userId serviceIdOpt)) \<and> f 8 = None
      \<longrightarrow> snd (requestQueue f d now userId serviceIdOpt) = d)
   \<and> (isl (fst (callNext f d now r counterId)) \<and> f 3 = None \<and> f 4 = None \<and> f 5 = None
      \<longrightarrow> snd (callNext f d now r counterId) = d)
   \<and> (isl (fst (startServing f d now r counterId queueId)) \<and> f 3 = None
      \<longrightarrow> snd (startServing f d now r counterId queueId) = d)
   \<and> (isl (fst (completeService f d now r counterId queueId))
        \<and> f 3 = None \<and> f 4 = None \<and> f 5 = None
      \<longrightarrow> snd (completeService f d now r counterId queueId) = d)
   \<and> (isl (fst (cancelQueue f d now userId queueId)) \<and> f 2 = None
      \<longrightarrow> snd (cancelQueue f d now userId queueId) = d)"
  by (simp add: requestQueue_atomic callNext_atomic startServing_atomic completeService_atomic
        cancelQueue_atomic)

text \<open>The store rejects the second query of each handler.\<close>

theorem failed_operations_atomic_witness:
  "isl (fst (requestQueue (store_fails_at 1) db_called 200 2 (Some 1)))
   \<and> snd (requestQueue (store_fails_at 1) db_called 200 2 (Some 1)) = db_called
   \<and> isl (fst (callNext (store_fails_at 1) db_called 200 Counter_staff 1))
   \<and> snd (callNext (store_fails_at 1) db_called 200 Counter_staff 1) = db_called
   \<and> isl (fst (startServing (store_fails_at 1) db_called 200 Counter_staff 1 2))
   \<and> snd (startServing (store_fails_at 1) db_called 200 Counter_staff 1 2) = db_called
   \<and> isl (fst (completeService (store_fails_at 1) db_called 200 Counter_staff 1 2))
   \<and> snd (completeService (store_fails_at 1) db_called 200 Counter_staff 1 2) = db_called
   \<and> isl (fst (cancelQueue (store_fails_at 1) db_called 200 2 2))
   \<and> snd (cancelQueue (store_fails_at 1) db_called 200 2 2) = db_called"
proof -
  have f: "store_fails_at 1 2 = None" "store_fails_at 1 3 = None" "store_fails_at 1 4 = None"
    "store_fails_at 1 5 = None" "store_fails_at 1 8 = None"
    by (simp_all add: store_fails_at_def)
  have e: "isl (fst (requestQueue (store_fails_at 1) db_called 200 2 (Some 1)))"
    "isl (fst (callNext (store_fails_at 1) db_called 200 Counter_staff 1))"
    "isl (fst (startServing (store_fails_at 1) db_called 200 Counter_staff 1 2))"
    "isl (fst (completeService (store_fails_at 1) db_called 200 Counter_staff 1 2))"
    "isl (fst (cancelQueue (store_fails_at 1) db_called 200 2 2))"
    unfolding db_called_eq by (simp_all add: handler_defs store_fails_at_def)
  from failed_operations_atomic
         [of "store_fails_at 1" db_called 200 2 "Some 1" Counter_staff 1 2] f e
  show ?thesis by blast
qed

section \<open>Requests\<close>

lemma request_duplicate_rejected:
  assumes "q \<in> set (queue_entries d)" and "user_id q = uid" and "service_id q = sid"
    and "status q \<in> {Waiting, Called, Serving}"
  shows "isl (fst (requestQueue f d now uid (Some sid)))
         \<and> snd (requestQueue f d now uid (Some sid)) = d"
proof -
  from assms have "Queue_findByUserAndService d uid sid \<noteq> None"
    unfolding Queue_findByUserAndService_def first_row_filter_None by blast
  then obtain e where e: "Queue_findByUserAndService d uid sid = Some e" by blast
  show ?thesis
    unfolding requestQueue_def Let_def
    by (cases "getSystemSettings (f 0) d") (simp add: e split: option.splits)
qed

lemma request_duplicate_message:
  assumes "q \<in> set (queue_entries d)" and "user_id q = uid" and "service_id q = sid"
    and "status q \<in> {Waiting, Called, Serving}"
    and "sid \<noteq> 0" and "system_settings d = None"
    and "first_row (filter (\<lambda>s. svc_id s = sid) (services d)) = Some svc" and "is_active svc"
  shows "requestQueue no_faults d now uid (Some sid)
         = (Inl (HttpError 400 ''You already have an active queue for this service''), d)"
proof -
  from assms have "Queue_findByUserAndService d uid sid \<noteq> None"
    unfolding Queue_findByUserAndService_def first_row_filter_None by blast
  then obtain e where e: "Queue_findByUserAndService d uid sid = Some e" by blast
  with assms(5-8) show ?thesis
    by (simp add: requestQueue_def Let_def no_faults_def getSystemSettings_def)
qed

lemma Queue_create_Inr:
  assumes "Queue_create f d now userId serviceId = (Inr t, d')"
  shows "\<exists>queueNumber.
           Queue_generateQueueNumber f d now serviceId = Inr queueNumber
           \<and> t = \<lparr>qe_id = queue_entries_id_seq d + 1, user_id = userId, service_id = serviceId,
                   queue_number = queueNumber,
                   queue_position = Queue_calculateQueuePosition d now serviceId,
                   status = Waiting, counter_id = None,
                   estimated_wait_time = service_time_or_5 d serviceId
                                          * Queue_calculateQueuePosition d now serviceId,
                   requested_at = now, called_at = None, started_serving_at = None,
                   completed_at = None, cancelled_at = None\<rparr>
           \<and> queue_entries d' = queue_entries d @ [t]
           \<and> queue_entries_id_seq d' = queue_entries_id_seq d + 1
           \<and> services d' = services d \<and> counters d' = counters d \<and> users d' = users d
           \<and> system_settings d' = system_settings d \<and> time_zone d' = time_zone d"
  using assms
  by (auto simp: Queue_create_def Let_def insert_queue_entry_def Queue_logQueueAction_def
        split: sum.splits option.splits)

lemma requestQueue_Inr:
  assumes "requestQueue f d now userId serviceIdOpt = (Inr t, d')"
  shows "\<exists>serviceId svc. serviceIdOpt = Some serviceId \<and> serviceId \<noteq> 0
           \<and> first_row (filter (\<lambda>s. svc_id s = serviceId) (services d)) = Some svc
           \<and> is_active svc
           \<and> Queue_findByUserAndService d userId serviceId = None
           \<and> Queue_create (shift_faults 3 f) d now userId serviceId = (Inr t, d')"
proof -
  obtain serviceId where s: "serviceIdOpt = Some serviceId"
    using assms by (cases serviceIdOpt) (simp_all add: requestQueue_def Let_def)
  obtain m msg where g: "getSystemSettings (f 0) d = (m, msg)"
    by (cases "getSystemSettings (f 0) d")
  from assms show ?thesis
    unfolding requestQueue_def Let_def s g
    by (simp split: if_splits option.splits prod.splits sum.splits)
qed

section \<open>One active ticket per user and service\<close>

text \<open>
  Claim C5 fails through start-serving. User 1 holds completed ticket 1 and, having
  requested again, waiting ticket 3, both for service 1. Counter 1 sends start-serving
  for ticket 1: the handler succeeds, and user 1 now holds two tickets of service 1 in a
  non-terminal status.
\<close>

theorem restart_gives_second_active_ticket:
  "map user_id (queue_entries db_requested3) = [1, 2, 1]
   \<and> map service_id (queue_entries db_requested3) = [1, 1, 1]
   \<and> map status (queue_entries db_requested3) = [Completed, Waiting, Waiting]
   \<and> length (active_tickets db_requested3 1 1) = 1
   \<and> \<not> isl (fst (startServing no_faults db_requested3 150 Counter_staff 1 1))
   \<and> map status (queue_entries (snd (startServing no_faults db_requested3 150 Counter_staff 1 1)))
       = [Serving, Waiting, Waiting]
   \<and> map qe_id (active_tickets (snd (startServing no_faults db_requested3 150 Counter_staff 1 1)) 1 1)
       = [1, 3]"
  unfolding db_requested3_eq by (simp add: handler_defs active_tickets_def)

section \<open>Position and estimated wait at admission\<close>

lemma queue_entries_frame:
  "queue_entries (Counter_setCurrentServing d c x) = queue_entries d"
  "queue_entries (Counter_updateStatus d c st) = queue_entries d"
  "queue_entries (Queue_logQueueAction d q s co a) = queue_entries d"
  by (simp_all add: Counter_setCurrentServing_def Counter_updateStatus_def
        Queue_logQueueAction_def)

lemma admission_fields_update:
  assumes "\<And>q. admission_fields (upd q) = admission_fields q"
  shows "map admission_fields (queue_entries (update_queue_entries d qid upd))
         = map admission_fields (queue_entries d)"
  by (simp add: update_queue_entries_def comp_def assms)

lemma callNext_admission_fields:
  "map admission_fields (queue_entries (snd (callNext f d now r counterId)))
   = map admission_fields (queue_entries d)"
  by (simp add: callNext_def Let_def queue_entries_frame admission_fields_update
        admission_fields_def split: option.splits)

lemma startServing_admission_fields:
  "map admission_fields (queue_entries (snd (startServing f d now r counterId queueId)))
   = map admission_fields (queue_entries d)"
  by (simp add: startServing_def Let_def queue_entries_frame admission_fields_update
        admission_fields_def split: option.splits)

lemma completeService_admission_fields:
  "map admission_fields (queue_entries (snd (completeService f d now r counterId queueId)))
   = map admission_fields (queue_entries d)"
  by (simp add: completeService_def Let_def queue_entries_frame admission_fields_update
        admission_fields_def split: option.splits)

lemma cancelQueue_admission_fields:
  "map admission_fields (queue_entries (snd (cancelQueue f d now userId queueId)))
   = map admission_fields (queue_entries d)"
  by (simp add: cancelQueue_def Queue_cancel_def Let_def queue_entries_frame
        admission_fields_update admission_fields_def
        split: option.splits sum.splits exn.splits)

lemma Queue_create_entries:
  "queue_entries (snd (Queue_create f d now userId serviceId)) = queue_entries d
   \<or> (\<exists>t. user_id t = userId \<and> service_id t = serviceId \<and> status t = Waiting
          \<and> queue_entries (snd (Queue_create f d now userId serviceId)) = queue_entries d @ [t])"
  by (auto simp: Queue_create_def Let_def insert_queue_entry_def Queue_logQueueAction_def
        split: sum.splits option.splits)

lemma requestQueue_entries:
  "queue_entries (snd (requestQueue f d now userId serviceIdOpt)) = queue_entries d
   \<or> (\<exists>serviceId t. serviceIdOpt = Some serviceId
          \<and> Queue_findByUserAndService d userId serviceId = None
          \<and> user_id t = userId \<and> service_id t = serviceId \<and> status t = Waiting
          \<and> queue_entries (snd (requestQueue f d now userId serviceIdOpt)) = queue_entries d @ [t])"
proof (cases serviceIdOpt)
  case None
  then show ?thesis by (simp add: requestQueue_def Let_def)
next
  case (Some serviceId)
  obtain m msg where g: "getSystemSettings (f 0) d = (m, msg)"
    by (cases "getSystemSettings (f 0) d")
  obtain res d' where c: "Queue_create (shift_faults 3 f) d now userId serviceId = (res, d')"
    by (cases "Queue_create (shift_faults 3 f) d now userId serviceId")
  from Queue_create_entries [of "shift_faults 3 f" d now userId serviceId] c
  have d': "queue_entries d' = queue_entries d
   \<or> (\<exists>t. user_id t = userId \<and> service_id t = serviceId \<and> status t = Waiting
          \<and> queue_entries d' = queue_entries d @ [t])" by simp
  show ?thesis
  proof (cases "serviceId \<noteq> 0 \<and> \<not> m \<and> f 1 = None \<and> f 2 = None
                \<and> (\<exists>svc. first_row (filter (\<lambda>s. svc_id s = serviceId) (services d)) = Some svc
                        \<and> is_active svc)
                \<and> Queue_findByUserAndService d userId serviceId = None")
    case True
    then have "snd (requestQueue f d now userId serviceIdOpt) = d'"
      by (cases res) (auto simp: requestQueue_def Let_def Some g c)
    with d' True Some show ?thesis by auto
  next
    case False
    then have "snd (requestQueue f d now userId serviceIdOpt) = d"
      by (auto simp: requestQueue_def Let_def Some g split: option.splits)
    then show ?thesis by simp
  qed
qed

text \<open>
  A request never gives a user a second active ticket for a service: if no user holds
  more than one before, none does after, whatever the outcome of the request.
\<close>

lemma request_keeps_single_active:
  assumes "length (active_tickets d u s) \<le> 1"
  shows "length (active_tickets (snd (requestQueue f d now userId serviceIdOpt)) u s) \<le> 1"
  using requestQueue_entries [of f d now userId serviceIdOpt]
proof (elim disjE exE conjE)
  assume "queue_entries (snd (requestQueue f d now userId serviceIdOpt)) = queue_entries d"
  with assms show ?thesis by (simp add: active_tickets_def)
next
  fix serviceId t
  assume none: "Queue_findByUserAndService d userId serviceId = None"
    and t: "user_id t = userId" "service_id t = serviceId" "status t = Waiting"
    and e: "queue_entries (snd (requestQueue f d now userId serviceIdOpt)) = queue_entries d @ [t]"
  from none have "active_tickets d userId serviceId = []"
    by (simp add: Queue_findByUserAndService_def active_tickets_def first_row_filter_None
          filter_empty_conv)
  with assms t e show ?thesis
    by (cases "u = userId \<and> s = serviceId") (auto simp: active_tickets_def)
qed

lemma requestQueue_admission_fields:
  "take (length (queue_entries d))
     (map admission_fields (queue_entries (snd (requestQueue f d now userId serviceIdOpt))))
   = map admission_fields (queue_entries d)"
  using requestQueue_entries [of f d now userId serviceIdOpt] by auto


lemma run_operations_admission_fields:
  "take (length (queue_entries d)) (map admission_fields (queue_entries (run_operations ops d)))
   = map admission_fields (queue_entries d)"
proof (induction ops arbitrary: d)
  case Nil
  show ?case by (simp add: run_operations_def)
next
  case (Cons op ops)
  have step: "take (length (queue_entries d)) (map admission_fields (queue_entries (perform op d)))
              = map admission_fields (queue_entries d)"
  proof (cases op)
    case (Request f now userId serviceIdOpt)
    then show ?thesis by (simp add: requestQueue_admission_fields)
  next
    case (CallNext f now r counterId)
    then show ?thesis by (simp add: callNext_admission_fields)
  next
    case (StartServing f now r counterId queueId)
    then show ?thesis by (simp add: startServing_admission_fields)
  next
    case (CompleteService f now r counterId queueId)
    then show ?thesis by (simp add: completeService_admission_fields)
  next
    case (Cancel f now userId queueId)
    then show ?thesis by (simp add: cancelQueue_admission_fields)
  next
    case (Elsewhere g)
    then show ?thesis by simp
  qed
  then have "length (map admission_fields (queue_entries d))
             \<le> length (map admission_fields (queue_entries (perform op d)))"
    by (metis length_take min.cobounded1 length_map)
  then have le: "length (queue_entries d) \<le> length (queue_entries (perform op d))" by simp
  have "take (length (queue_entries d))
          (map admission_fields (queue_entries (run_operations (op # ops) d)))
        = take (length (queue_entries d))
            (take (length (queue_entries (perform op d)))
               (map admission_fields (queue_entries (run_operations ops (perform op d)))))"
    using le by (simp add: run_operations_def min_def)
  also have "\<dots> = take (length (queue_entries d))
                     (map admission_fields (queue_entries (perform op d)))"
    by (simp only: Cons.IH)
  finally show ?case by (simp only: step)
qed

lemma first_row_filter_split:
  "first_row (filter P xs) = Some x
   \<Longrightarrow> \<exists>pre post. xs = pre @ x # post \<and> (\<forall>y \<in> set pre. \<not> P y) \<and> P x"
proof (induction xs)
  case Nil
  then show ?case by (simp add: first_row_def)
next
  case (Cons y ys)
  show ?case
  proof (cases "P y")
    case True
    with Cons.prems have "y = x" by (simp add: first_row_def)
    with True have "y # ys = [] @ x # ys \<and> (\<forall>y \<in> set []. \<not> P y) \<and> P x" by simp
    then show ?thesis by blast
  next
    case False
    with Cons obtain pre post where "ys = pre @ x # post" "\<forall>y \<in> set pre. \<not> P y" "P x"
      by auto
    with False have "y # ys = (y # pre) @ x # post \<and> (\<forall>z \<in> set (y # pre). \<not> P z) \<and> P x"
      by simp
    then show ?thesis by blast
  qed
qed

text \<open>
  Claim C7, as amended. The service of a request is the first row of the services table
  with the requested id (the only one, the id being the primary key). A successful request
  stores the new ticket, at the end of the table, with queue_position equal to 1 plus
  the number of the service's tickets that are waiting and whose \<^verbatim>\<open>requested_at\<close> is
  earlier than the admission instant (the position query has \<^verbatim>\<open>requested_at < NOW()\<close>);
  when every stored ticket was requested before the admission instant, that is 1 plus the
  number of the service's waiting tickets. Its estimated_wait_time is that position
  times the service's estimated service time, where 5 stands in for an estimated service
  time that is NULL or 0. After any sequence of later operations, with any outcomes and
  store failures, every ticket of the store still has the id, queue_position and
  estimated_wait_time it had.
\<close>

theorem admission_postcondition:
  assumes "requestQueue f d now userId serviceIdOpt = (Inr t, d')"
  shows "(\<exists>pre svc post.
            services d = pre @ svc # post \<and> (\<forall>s \<in> set pre. svc_id s \<noteq> svc_id svc)
            \<and> serviceIdOpt = Some (svc_id svc) \<and> service_id t = svc_id svc
            \<and> queue_position t
                = int (length (filter (\<lambda>q. service_id q = svc_id svc \<and> status q = Waiting
                                           \<and> requested_at q < now)
                                 (queue_entries d))) + 1
            \<and> estimated_wait_time t
                = (case estimated_service_time svc of
                     None \<Rightarrow> 5
                   | Some b \<Rightarrow> if b = 0 then 5 else b) * queue_position t)
         \<and> ((\<forall>q \<in> set (queue_entries d). requested_at q < now)
              \<longrightarrow> queue_position t
                    = int (length (filter (\<lambda>q. service_id q = service_id t \<and> status q = Waiting)
                                     (queue_entries d))) + 1)
         \<and> queue_entries d' = queue_entries d @ [t]
         \<and> (\<forall>ops. take (length (queue_entries d'))
                      (map (\<lambda>q. (qe_id q, queue_position q, estimated_wait_time q))
                         (queue_entries (run_operations ops d')))
                    = map (\<lambda>q. (qe_id q, queue_position q, estimated_wait_time q))
                        (queue_entries d'))"
proof -
  from requestQueue_Inr [OF assms(1)] obtain serviceId and svc :: service where
    s: "serviceIdOpt = Some serviceId"
       "first_row (filter (\<lambda>s. svc_id s = serviceId) (services d)) = Some svc"
    and c: "Queue_create (shift_faults 3 f) d now userId serviceId = (Inr t, d')"
    by blast
  from first_row_filter_split [OF s(2)] obtain pre post where
    svc: "services d = pre @ svc # post" "\<forall>s \<in> set pre. svc_id s \<noteq> svc_id svc"
      "svc_id svc = serviceId"
    by auto
  from Queue_create_Inr [OF c]
  have t: "service_id t = serviceId"
      "queue_position t = Queue_calculateQueuePosition d now serviceId"
      "estimated_wait_time t = service_time_or_5 d serviceId * queue_position t"
      "queue_entries d' = queue_entries d @ [t]"
    by auto
  have pos: "queue_position t
      = int (length (filter (\<lambda>q. service_id q = serviceId \<and> status q = Waiting
                                 \<and> requested_at q < now)
                       (queue_entries d))) + 1"
    by (simp add: t(2) Queue_calculateQueuePosition_def)
  from s(2) have ewt: "service_time_or_5 d serviceId
      = (case estimated_service_time svc of None \<Rightarrow> 5 | Some b \<Rightarrow> if b = 0 then 5 else b)"
    by (simp add: service_time_or_5_def)
  from svc s(1) t(1,3) pos ewt
  have first: "\<exists>pre svc post.
            services d = pre @ svc # post \<and> (\<forall>s \<in> set pre. svc_id s \<noteq> svc_id svc)
            \<and> serviceIdOpt = Some (svc_id svc) \<and> service_id t = svc_id svc
            \<and> queue_position t
                = int (length (filter (\<lambda>q. service_id q = svc_id svc \<and> status q = Waiting
                                           \<and> requested_at q < now)
                                 (queue_entries d))) + 1
            \<and> estimated_wait_time t
                = (case estimated_service_time svc of
                     None \<Rightarrow> 5
                   | Some b \<Rightarrow> if b = 0 then 5 else b) * queue_position t"
    by (intro exI [of _ pre] exI [of _ svc] exI [of _ post]) simp
  have second: "queue_position t
                    = int (length (filter (\<lambda>q. service_id q = service_id t \<and> status q = Waiting)
                                     (queue_entries d))) + 1"
    if "\<forall>q \<in> set (queue_entries d). requested_at q < now"
  proof -
    have "filter (\<lambda>q. service_id q = serviceId \<and> status q = Waiting \<and> requested_at q < now)
            (queue_entries d)
          = filter (\<lambda>q. service_id q = serviceId \<and> status q = Waiting) (queue_entries d)"
      using that by (intro filter_cong) auto
    with pos t(1) show ?thesis by simp
  qed
  have af: "admission_fields = (\<lambda>q. (qe_id q, queue_position q, estimated_wait_time q))"
    by (rule ext) (simp add: admission_fields_def)
  have frame: "take (length (queue_entries d'))
                      (map (\<lambda>q. (qe_id q, queue_position q, estimated_wait_time q))
                         (queue_entries (run_operations ops d')))
                    = map (\<lambda>q. (qe_id q, queue_position q, estimated_wait_time q))
                        (queue_entries d')" for ops
    using run_operations_admission_fields [of d' ops] unfolding af .
  from first second t(4) frame show ?thesis by blast
qed

text \<open>
  In the hall the clinic, whose estimated service time is 0, has two waiting tickets,
  requested at 101 and 102; user 1 is admitted at instant 102, so only the first of them
  counts: position 2, estimated wait 5 times 2. The fields of the four tickets survive a
  call, a completion, a cancellation, a further request and the removal of all counters.
  At the registrar, with one ticket waiting since 100, user 2 is admitted at 101 with
  position 2 and estimated wait 10 times 2.
\<close>

theorem admission_postcondition_witness:
  "\<not> isl (fst (requestQueue no_faults db_hall 102 1 (Some 2)))
   \<and> map svc_id (services db_hall) = [1, 2]
   \<and> map estimated_service_time (services db_hall) = [Some 10, Some 0]
   \<and> map (\<lambda>q. (service_id q, status q, requested_at q)) (queue_entries db_hall)
       = [(1, Waiting, 100), (2, Waiting, 101), (2, Waiting, 102)]
   \<and> queue_position (projr (fst (requestQueue no_faults db_hall 102 1 (Some 2)))) = 2
   \<and> estimated_wait_time (projr (fst (requestQueue no_faults db_hall 102 1 (Some 2)))) = 10
   \<and> take 4 (map (\<lambda>q. (qe_id q, queue_position q, estimated_wait_time q))
                (queue_entries
                   (run_operations
                      [CallNext no_faults 110 Counter_staff 3,
                       CompleteService no_faults 120 Counter_staff 3 12,
                       Cancel no_faults 125 2 11,
                       Request no_faults 130 2 (Some 2),
                       Elsewhere (\<lambda>s. s\<lparr>counters := []\<rparr>)]
                      (snd (requestQueue no_faults db_hall 102 1 (Some 2))))))
       = [(10, 1, 10), (11, 2, 10), (12, 1, 5), (13, 2, 10)]
   \<and> \<not> isl (fst (requestQueue no_faults db_requested1 101 2 (Some 1)))
   \<and> map requested_at (queue_entries db_requested1) = [100]
   \<and> map status (queue_entries db_requested1) = [Waiting]
   \<and> queue_position (projr (fst (requestQueue no_faults db_requested1 101 2 (Some 1)))) = 2
   \<and> estimated_wait_time (projr (fst (requestQueue no_faults db_requested1 101 2 (Some 1)))) = 20"
proof -
  let ?t = "projr (fst (requestQueue no_faults db_hall 102 1 (Some 2)))"
  let ?d = "snd (requestQueue no_faults db_hall 102 1 (Some 2))"
  let ?ops = "[CallNext no_faults 110 Counter_staff 3,
               CompleteService no_faults 120 Counter_staff 3 12,
               Cancel no_faults 125 2 11,
               Request no_faults 130 2 (Some 2),
               Elsewhere (\<lambda>s. s\<lparr>counters := []\<rparr>)]"
  have ok: "\<not> isl (fst (requestQueue no_faults db_hall 102 1 (Some 2)))"
    by (simp add: db_hall_def registrar_def clinic_def handler_defs string_defs)
  have store:
    "map svc_id (services db_hall) = [1, 2]"
    "map estimated_service_time (services db_hall) = [Some 10, Some 0]"
    "map (\<lambda>q. (service_id q, status q, requested_at q)) (queue_entries db_hall)
       = [(1, Waiting, 100), (2, Waiting, 101), (2, Waiting, 102)]"
    "map (\<lambda>q. (qe_id q, queue_position q, estimated_wait_time q)) (queue_entries db_hall)
       = [(10, 1, 10), (11, 2, 10), (12, 1, 5)]"
    by (simp_all add: db_hall_def registrar_def clinic_def)
  from ok have run: "requestQueue no_faults db_hall 102 1 (Some 2) = (Inr ?t, ?d)"
    by (simp add: prod_eq_iff)
  from admission_postcondition [OF run] obtain pre and svc :: service and post where
    svc: "services db_hall = pre @ svc # post" "Some (2::nat) = Some (svc_id svc)"
    and t: "queue_position ?t
              = int (length (filter (\<lambda>q. service_id q = svc_id svc \<and> status q = Waiting
                                         \<and> requested_at q < 102)
                               (queue_entries db_hall))) + 1"
      "estimated_wait_time ?t
         = (case estimated_service_time svc of None \<Rightarrow> 5 | Some b \<Rightarrow> if b = 0 then 5 else b)
           * queue_position ?t"
    and stored: "queue_entries ?d = queue_entries db_hall @ [?t]"
    and frame: "take (length (queue_entries ?d))
                  (map (\<lambda>q. (qe_id q, queue_position q, estimated_wait_time q))
                     (queue_entries (run_operations ?ops ?d)))
                = map (\<lambda>q. (qe_id q, queue_position q, estimated_wait_time q))
                    (queue_entries ?d)"
    by blast
  from svc have "svc \<in> set (services db_hall)" by simp
  with svc(2) have "svc = clinic" by (auto simp: db_hall_def registrar_def clinic_def)
  with t have pos: "queue_position ?t = 2" and ewt: "estimated_wait_time ?t = 10"
    by (simp_all add: db_hall_def clinic_def)
  have "qe_id ?t = 13"
    by (simp add: db_hall_def registrar_def clinic_def handler_defs string_defs)
  note stored frame pos ewt store(4) this
  moreover have "length (queue_entries db_hall) = 3" by (simp add: db_hall_def)
  ultimately have later: "take 4 (map (\<lambda>q. (qe_id q, queue_position q, estimated_wait_time q))
                         (queue_entries (run_operations ?ops ?d)))
               = [(10, 1, 10), (11, 2, 10), (12, 1, 5), (13, 2, 10)]"
    by simp
  let ?u = "projr (fst (requestQueue no_faults db_requested1 101 2 (Some 1)))"
  have ok1: "\<not> isl (fst (requestQueue no_faults db_requested1 101 2 (Some 1)))"
    and w: "map status (queue_entries db_requested1) = [Waiting]"
      "map requested_at (queue_entries db_requested1) = [100]"
    unfolding db_requested1_eq by (simp_all add: handler_defs string_defs)
  from ok1 have run1: "requestQueue no_faults db_requested1 101 2 (Some 1)
      = (Inr ?u, snd (requestQueue no_faults db_requested1 101 2 (Some 1)))"
    by (simp add: prod_eq_iff)
  have past: "\<forall>q \<in> set (queue_entries db_requested1). requested_at q < 101"
    by (simp add: db_requested1_eq)
  from admission_postcondition [OF run1] past obtain pre1 and svc1 :: service and post1 where
    svc1: "services db_requested1 = pre1 @ svc1 # post1"
    and u: "service_id ?u = svc_id svc1"
      "queue_position ?u
         = int (length (filter (\<lambda>q. service_id q = service_id ?u \<and> status q = Waiting)
                          (queue_entries db_requested1))) + 1"
      "estimated_wait_time ?u
         = (case estimated_service_time svc1 of None \<Rightarrow> 5 | Some b \<Rightarrow> if b = 0 then 5 else b)
           * queue_position ?u"
      "Some (1::nat) = Some (svc_id svc1)"
    by blast
  from svc1 have "svc1 \<in> set (services db_requested1)" by simp
  then have "svc1 = registrar" by (simp add: db_requested1_eq registrar_def)
  with u have "queue_position ?u = 2" "estimated_wait_time ?u = 20"
    by (simp_all add: db_requested1_eq registrar_def)
  with ok store(1-3) pos ewt later ok1 w show ?thesis by simp
qed

text \<open>
  Claim C7 as stated multiplies by the service's own estimated service time. The clinic's
  is 0; its first ticket gets position 1 and an estimated wait of 5, not 0.
\<close>

theorem admission_zero_service_time_counterexample:
  "estimated_service_time clinic = Some 0
   \<and> services db_clinic = [clinic] \<and> queue_entries db_clinic = []
   \<and> \<not> isl (fst (requestQueue no_faults db_clinic 100 1 (Some 2)))
   \<and> queue_position (projr (fst (requestQueue no_faults db_clinic 100 1 (Some 2)))) = 1
   \<and> estimated_wait_time (projr (fst (requestQueue no_faults db_clinic 100 1 (Some 2)))) = 5"
  by (simp add: db_clinic_def clinic_def handler_defs string_defs)

section \<open>Strings and numbers of the queue number\<close>

lemma startsWith_iff: "startsWith s p \<longleftrightarrow> (\<exists>r. s = p @ r)"
  by (induction s p rule: startsWith.induct) auto

lemma like_percent: "like [CHR ''%''] s"
  by (induction s) simp_all

lemma like_literal_prefix:
  assumes "\<forall>c \<in> set p. c \<noteq> CHR ''%'' \<and> c \<noteq> CHR ''_'' \<and> c \<noteq> CHR 0x5C"
  shows "like (p @ ''-%'') s \<longleftrightarrow> startsWith s (p @ ''-'')"
  using assms
proof (induction p arbitrary: s)
  case Nil
  show ?case by (cases s) (simp_all add: like_percent)
next
  case (Cons a p)
  then show ?case by (cases s) auto
qed

lemma split_on_no_sep: "sep \<notin> set s \<Longrightarrow> split_on sep s = [s]"
  by (induction s) auto

lemma split_on_not_Nil: "split_on sep s \<noteq> []"
  by (induction s) (auto split: list.splits)

lemma split_on_prefix:
  "sep \<notin> set p \<Longrightarrow> split_on sep (p @ sep # rest) = p # split_on sep rest"
  by (induction p) (auto split: list.splits)

lemma digit_value_dec: "digit_value 10 c \<noteq> None \<longleftrightarrow> c \<in> set ''0123456789''"
  by (auto simp: digit_value_def split: if_splits)

lemma digit_char_dec: "k < 10 \<Longrightarrow> digit_value 10 (digit_char k) = Some k"
proof -
  assume "k < 10"
  then have "k \<in> {0, 1, 2, 3, 4, 5, 6, 7, 8, 9}" by auto
  then show ?thesis
    by (elim insertE emptyE) (simp_all add: digit_char_def digit_value_def)
qed

lemma nat_to_string_digits: "set (nat_to_string n) \<subseteq> set ''0123456789''"
proof (induction n rule: nat_to_string.induct)
  case (1 n)
  have d: "digit_char k \<in> set ''0123456789''" if "k < 10" for k
    using digit_char_dec [OF that] digit_value_dec [of "digit_char k"] by simp
  show ?case
  proof (cases "n < 10")
    case True
    then show ?thesis by (subst nat_to_string.simps) (use d in auto)
  next
    case False
    have "n mod 10 < 10" by simp
    with False 1 d [of "n mod 10"] show ?thesis
      by (subst nat_to_string.simps) auto
  qed
qed

lemma nat_to_string_not_Nil: "nat_to_string n \<noteq> []"
  by (subst nat_to_string.simps) simp

lemma digits_value_snoc:
  "digits_value 10 (z @ [c]) = digits_value 10 z * 10 + (case digit_value 10 c of Some v \<Rightarrow> v | None \<Rightarrow> 0)"
  by (simp add: digits_value_def)

lemma digits_value_nat_to_string: "digits_value 10 (nat_to_string n) = n"
proof (induction n rule: nat_to_string.induct)
  case (1 n)
  show ?case
  proof (cases "n < 10")
    case True
    then show ?thesis
      by (subst nat_to_string.simps) (simp add: digits_value_def digit_char_dec)
  next
    case False
    have "n mod 10 < 10" by simp
    with False 1 show ?thesis
      by (subst nat_to_string.simps) (simp add: digits_value_snoc digit_char_dec)
  qed
qed

lemma digits_value_zeros: "digits_value 10 (replicate k CHR ''0'' @ z) = digits_value 10 z"
proof -
  have "foldl (\<lambda>acc c. acc * 10 + (case digit_value 10 c of Some v \<Rightarrow> v | None \<Rightarrow> 0)) 0
          (replicate k CHR ''0'') = 0"
    by (induction k) (simp_all add: digit_value_def)
  then show ?thesis by (simp add: digits_value_def)
qed

lemma parseInt_digits:
  assumes "z \<noteq> []" and "set z \<subseteq> set ''0123456789''"
  shows "parseInt z = Num (int (digits_value 10 z))"
proof -
  from assms(1) obtain c cs where z: "z = c # cs" by (cases z) auto
  with assms(2) have c: "c \<in> set ''0123456789''" by simp
  then have nsp: "\<not> is_space c" and nsign: "c \<noteq> CHR ''+''" "c \<noteq> CHR ''-''"
    by (auto simp: is_space_def)
  have skip: "dropWhile is_space z = z" using nsp z by simp
  have neg: "(case z of [] \<Rightarrow> False | c # _ \<Rightarrow> c = CHR ''-'') = False"
    using nsign z by simp
  have unsigned: "(case z of [] \<Rightarrow> [] | c # cs \<Rightarrow> if c = CHR ''+'' \<or> c = CHR ''-'' then cs else z) = z"
    using nsign z by simp
  have "CHR ''x'' \<notin> set z" "CHR ''X'' \<notin> set z" using assms(2) by auto
  then have nhex: "startsWith z ''0x'' = False" "startsWith z ''0X'' = False"
    by (auto simp: startsWith_iff)
  have "\<forall>c \<in> set z. digit_value 10 c \<noteq> None"
    using assms(2) digit_value_dec by blast
  then have tw: "takeWhile (\<lambda>c. digit_value 10 c \<noteq> None) z = z"
    by (simp add: takeWhile_eq_all_conv)
  show ?thesis
    unfolding parseInt_def Let_def skip neg unsigned nhex
    by (simp only: tw assms(1) if_False simp_thms) simp
qed

lemma padded_digits:
  "padStart 3 CHR ''0'' (nat_to_string n) \<noteq> []"
  "set (padStart 3 CHR ''0'' (nat_to_string n)) \<subseteq> set ''0123456789''"
  using nat_to_string_digits [of n] by (auto simp: padStart_def nat_to_string_not_Nil)

lemma parseInt_padded: "parseInt (padStart 3 CHR ''0'' (nat_to_string n)) = Num (int n)"
  unfolding parseInt_digits [OF padded_digits]
  by (simp add: padStart_def digits_value_zeros digits_value_nat_to_string)


lemma next_number_generated:
  assumes "CHR ''-'' \<notin> set p"
    and "queue_number row = p @ ''-'' @ padStart 3 CHR ''0'' (nat_to_string n)"
  shows "next_number (Some row) = Num (int n + 1)"
proof -
  have "CHR ''-'' \<notin> set (padStart 3 CHR ''0'' (nat_to_string n))"
    using padded_digits(2) [of n] by auto
  then have "split_on CHR ''-'' (queue_number row) = [p, padStart 3 CHR ''0'' (nat_to_string n)]"
    using assms by (simp add: split_on_prefix split_on_no_sep)
  then show ?thesis
    by (simp add: next_number_def parseInt_padded js_plus_def)
qed

lemma Number_toString_nat: "Number_toString (Num (int n)) = nat_to_string n"
  by (simp add: Number_toString_def)

text \<open>
  Upper-casing and trimming, characterised without the tables of the model: a letter a to
  z moves down by 32 code points and every other character stays; trimming a string that
  is white space, a core that neither starts nor ends with white space, and white space
  again, leaves the core.
\<close>

lemma eq_char_of_iff: "c = char_of (n :: nat) \<longleftrightarrow> (of_char c :: nat) = n mod 256"
proof
  assume "c = char_of n"
  then show "(of_char c :: nat) = n mod 256" by (simp add: of_char_of)
next
  assume "(of_char c :: nat) = n mod 256"
  then have "(of_char c :: nat) = of_char (char_of n)" by (simp add: of_char_of)
  then show "c = char_of n" by (simp only: of_char_eq_iff)
qed

lemma letter_code:
  fixes n :: nat
  assumes "97 \<le> n" and "n \<le> 122"
  shows "n \<in> of_char ` set ''abcdefghijklmnopqrstuvwxyz''"
  using assms by simp arith

lemma upper_char_letter:
  assumes "97 \<le> (of_char c :: nat)" and "(of_char c :: nat) \<le> 122"
  shows "upper_char c = char_of ((of_char c :: nat) - 32)"
proof -
  from assms have "(of_char c :: nat) \<in> of_char ` set ''abcdefghijklmnopqrstuvwxyz''"
    by (rule letter_code)
  then obtain x where x: "x \<in> set ''abcdefghijklmnopqrstuvwxyz''"
    and "(of_char c :: nat) = of_char x" by blast
  then have "c = x" by (simp only: of_char_eq_iff)
  with x have "c \<in> set ''abcdefghijklmnopqrstuvwxyz''" by simp
  then show ?thesis
    by (simp only: set_simps, elim insertE emptyE) (simp_all add: upper_char_def eq_char_of_iff)
qed

lemma upper_char_other:
  assumes "\<not> (97 \<le> (of_char c :: nat) \<and> (of_char c :: nat) \<le> 122)"
  shows "upper_char c = c"
proof -
  from assms have "c \<notin> set ''abcdefghijklmnopqrstuvwxyz''" by auto
  then show ?thesis by (simp add: upper_char_def)
qed

lemma toUpperCase_ascii:
  "toUpperCase s
   = map (\<lambda>c. if 97 \<le> (of_char c :: nat) \<and> (of_char c :: nat) \<le> 122
               then char_of ((of_char c :: nat) - 32) else c) s"
  unfolding toUpperCase_def
  by (rule map_cong [OF refl]) (simp add: upper_char_letter upper_char_other)

lemma trim_blank:
  assumes "\<forall>c \<in> set s. is_space c"
  shows "trim s = []"
proof -
  from assms have "dropWhile is_space s = []" by (simp only: dropWhile_eq_Nil_conv)
  then show ?thesis by (simp only: trim_def rev.simps dropWhile.simps)
qed

lemma trim_parts:
  assumes "\<forall>c \<in> set lead. is_space c" and "\<forall>c \<in> set trail. is_space c"
    and "core \<noteq> [] \<longrightarrow> \<not> is_space (hd core) \<and> \<not> is_space (last core)"
  shows "trim (lead @ core @ trail) = core"
proof (cases "core = []")
  case True
  with assms(1,2) have "\<forall>c \<in> set (lead @ core @ trail). is_space c" by auto
  then have "trim (lead @ core @ trail) = []" by (rule trim_blank)
  with True show ?thesis by (simp only:)
next
  case False
  with assms(3) have h: "\<not> is_space (hd core)" and l: "\<not> is_space (last core)" by simp_all
  from False h have "dropWhile is_space (core @ trail) = core @ trail"
    by (cases core) simp_all
  moreover have "dropWhile is_space (lead @ core @ trail) = dropWhile is_space (core @ trail)"
    using assms(1) by (intro dropWhile_append2) simp
  ultimately have "dropWhile is_space (lead @ core @ trail) = core @ trail" by simp
  moreover have "dropWhile is_space (rev trail @ rev core) = rev core"
  proof -
    from False l have "dropWhile is_space (rev core) = rev core"
      by (cases core rule: rev_cases) simp_all
    moreover have "dropWhile is_space (rev trail @ rev core) = dropWhile is_space (rev core)"
      using assms(2) by (intro dropWhile_append2) simp
    ultimately show ?thesis by simp
  qed
  ultimately show ?thesis by (simp add: trim_def)
qed

section \<open>Ticket sequencing\<close>

lemma first_row_filter_first:
  assumes "xs = pre @ x # post" and "\<forall>y \<in> set pre. \<not> P y" and "P x"
  shows "first_row (filter P xs) = Some x"
proof -
  from assms(2) have "filter P pre = []" by (simp add: filter_empty_conv)
  with assms(1,3) show ?thesis by (simp add: first_row_def)
qed

lemma order_by_limit1_max_id:
  assumes "distinct (map qe_id xs)" and "row \<in> set xs"
    and "\<forall>q \<in> set xs. qe_id q \<le> qe_id row"
  shows "order_by_limit1 (\<lambda>a b. qe_id a > qe_id b) xs = Some row"
  using assms
proof (induction xs)
  case Nil
  then show ?case by simp
next
  case (Cons x xs)
  show ?case
  proof (cases "row \<in> set xs")
    case True
    with Cons have best: "order_by_limit1 (\<lambda>a b. qe_id a > qe_id b) xs = Some row" by simp
    from Cons.prems(1) True have "qe_id x \<noteq> qe_id row" by (auto simp: image_iff)
    with Cons.prems(3) have "qe_id x < qe_id row" by (simp add: le_less)
    with best show ?thesis by simp
  next
    case False
    with Cons.prems(2) have x: "x = row" by simp
    show ?thesis
    proof (cases "order_by_limit1 (\<lambda>a b. qe_id a > qe_id b) xs")
      case None
      with x show ?thesis by simp
    next
      case (Some y)
      then have "y \<in> set xs" by (rule order_by_limit1_mem)
      with Cons.prems(3) have "qe_id y \<le> qe_id row" by simp
      with Some x show ?thesis by simp
    qed
  qed
qed

lemma digits_value_padded_string:
  "digits_value 10 (replicate k CHR ''0'' @ nat_to_string n) = n"
  by (simp add: digits_value_zeros digits_value_nat_to_string)

lemma padded_string_digits:
  "replicate k CHR ''0'' @ nat_to_string n \<noteq> []"
  "set (replicate k CHR ''0'' @ nat_to_string n) \<subseteq> set ''0123456789''"
  using nat_to_string_digits [of n] by (auto simp: nat_to_string_not_Nil)

lemma next_number_digits:
  assumes "CHR ''-'' \<notin> set p"
    and "queue_number row = p @ ''-'' @ ds" and "ds \<noteq> []" and "set ds \<subseteq> set ''0123456789''"
  shows "next_number (Some row) = Num (int (digits_value 10 ds) + 1)"
proof -
  have "CHR ''-'' \<notin> set ds" using assms(4) by auto
  then have "split_on CHR ''-'' (queue_number row) = [p, ds]"
    using assms(1,2) by (simp add: split_on_prefix split_on_no_sep)
  then show ?thesis
    by (simp add: next_number_def parseInt_digits [OF assms(3,4)] js_plus_def)
qed

lemma last_queue_today_plain:
  assumes "plain_prefix p"
  shows "last_queue_today d now serviceId p
         = order_by_limit1 (\<lambda>a b. qe_id a > qe_id b)
             (filter (\<lambda>q. service_id q = serviceId
                          \<and> date_of (time_zone d) (requested_at q) = date_of (\<lambda>t. 0) now
                          \<and> startsWith (queue_number q) (p @ ''-''))
                (queue_entries d))"
proof -
  from assms have "like (p @ ''-%'') s \<longleftrightarrow> startsWith s (p @ ''-'')" for s
    by (intro like_literal_prefix) (simp add: plain_prefix_def)
  then show ?thesis by (simp add: last_queue_today_def)
qed

lemma service_prefix_parts:
  assumes "(case queue_prefix svc of None \<Rightarrow> [] | Some p \<Rightarrow> p) = lead @ core @ trail"
    and "\<forall>c \<in> set lead. is_space c" and "\<forall>c \<in> set trail. is_space c"
    and "core \<noteq> [] \<longrightarrow> \<not> is_space (hd core) \<and> \<not> is_space (last core)"
  shows "service_prefix svc
         = toUpperCase (if core = [] then take 3 (svc_name svc) else core)"
proof -
  have "trim (lead @ core @ trail) = core" using assms(2-4) by (rule trim_parts)
  then show ?thesis by (auto simp: service_prefix_def Let_def assms(1))
qed

lemma generateQueueNumber_next:
  assumes "first_row (filter (\<lambda>s. svc_id s = serviceId) (services d)) = Some svc"
    and "plain_prefix (service_prefix svc)"
    and "order_by_limit1 (\<lambda>a b. qe_id a > qe_id b)
           (filter (\<lambda>q. service_id q = serviceId
                        \<and> date_of (time_zone d) (requested_at q) = date_of (\<lambda>t. 0) now
                        \<and> startsWith (queue_number q) (service_prefix svc @ ''-''))
              (queue_entries d)) = lastRow"
    and "lastRow = None \<and> n = 0
         \<or> (\<exists>row ds. lastRow = Some row \<and> queue_number row = service_prefix svc @ ''-'' @ ds
               \<and> ds \<noteq> [] \<and> set ds \<subseteq> set ''0123456789'' \<and> digits_value 10 ds = n)"
  shows "Queue_generateQueueNumber no_faults d now serviceId
           = Inr (service_prefix svc @ ''-'' @ padStart 3 CHR ''0'' (nat_to_string (n + 1)))"
proof -
  from assms(2) have nohyphen: "CHR ''-'' \<notin> set (service_prefix svc)"
    by (auto simp: plain_prefix_def)
  from assms(2,3) have last: "last_queue_today d now serviceId (service_prefix svc) = lastRow"
    by (simp add: last_queue_today_plain)
  have "next_number lastRow = Num (int n + 1)"
    using assms(4)
  proof
    assume "lastRow = None \<and> n = 0"
    then show ?thesis by (simp add: next_number_def)
  next
    assume "\<exists>row ds. lastRow = Some row \<and> queue_number row = service_prefix svc @ ''-'' @ ds
               \<and> ds \<noteq> [] \<and> set ds \<subseteq> set ''0123456789'' \<and> digits_value 10 ds = n"
    then obtain row ds where "lastRow = Some row"
      "queue_number row = service_prefix svc @ ''-'' @ ds" "ds \<noteq> []"
      "set ds \<subseteq> set ''0123456789''" "digits_value 10 ds = n"
      by blast
    with next_number_digits [OF nohyphen, of row ds] show ?thesis by simp
  qed
  then have "Number_toString (next_number lastRow) = nat_to_string (n + 1)"
    using Number_toString_nat [of "n + 1"] by (simp add: add.commute)
  with assms(1) last show ?thesis
    by (simp add: Queue_generateQueueNumber_def no_faults_def)
qed

text \<open>
  Claim C2, as amended. The service is the first row of the services table with the
  requested id; its name and its configured prefix are ASCII. The configured prefix (the
  empty string when it is NULL) is white space, then a core that neither starts nor ends
  with white space, then white space; PREFIX is the core when that is not empty, else the
  first three characters of the service name, with the letters a to z upper-cased, and it
  holds no hyphen and no special character of LIKE patterns. Ticket ids are unique. The
  tickets of today are those of the service whose \<^verbatim>\<open>requested_at\<close>, taken as a date in the
  time zone of the store's session, is the current UTC date, and whose queue number starts
  with PREFIX and a hyphen. If there is none, \<open>n\<close> is 0; otherwise the one with the highest
  id carries, after PREFIX and the hyphen, the decimal digits of \<open>n\<close>, possibly after
  leading zeros. Then the generated queue number is PREFIX, a hyphen, and the decimal
  digits of \<open>n + 1\<close> with zeros in front up to a width of three. (Numbers stay below
  \<open>2 ^ 53\<close>.)
\<close>

theorem queue_number_sequencing:
  assumes "services d = pre @ svc # post"
    and "\<forall>s \<in> set pre. svc_id s \<noteq> serviceId" and "svc_id svc = serviceId"
    and "ascii (svc_name svc)" and "ascii (lead @ core @ trail)"
    and "(case queue_prefix svc of None \<Rightarrow> [] | Some p \<Rightarrow> p) = lead @ core @ trail"
    and "set lead \<union> set trail
         \<subseteq> {CHR 0x09, CHR 0x0A, CHR 0x0B, CHR 0x0C, CHR 0x0D, CHR '' ''}"
    and "core \<noteq> []
         \<longrightarrow> hd core \<notin> {CHR 0x09, CHR 0x0A, CHR 0x0B, CHR 0x0C, CHR 0x0D, CHR '' ''}
             \<and> last core \<notin> {CHR 0x09, CHR 0x0A, CHR 0x0B, CHR 0x0C, CHR 0x0D, CHR '' ''}"
    and "P = map (\<lambda>c. if 97 \<le> (of_char c :: nat) \<and> (of_char c :: nat) \<le> 122
                       then char_of ((of_char c :: nat) - 32) else c)
                 (if core = [] then take 3 (svc_name svc) else core)"
    and "\<forall>c \<in> set P. c \<notin> {CHR ''-'', CHR ''%'', CHR ''_'', CHR 0x5C}"
    and "distinct (map qe_id (queue_entries d))"
    and "today = filter (\<lambda>q. service_id q = serviceId
                            \<and> (int (requested_at q) + time_zone d (requested_at q) * 1000000)
                                  div 86400000000
                                = int now div 86400000000
                            \<and> (\<exists>rest. queue_number q = P @ ''-'' @ rest))
                   (queue_entries d)"
    and "today = [] \<and> n = 0
         \<or> (\<exists>row \<in> set today. (\<forall>q \<in> set today. qe_id q \<le> qe_id row)
               \<and> (\<exists>k. queue_number row = P @ ''-'' @ replicate k CHR ''0'' @ nat_to_string n))"
    and "n + 1 < 2 ^ 53"
  shows "Queue_generateQueueNumber no_faults d now serviceId
         = Inr (P @ ''-'' @ replicate (3 - length (nat_to_string (n + 1))) CHR ''0''
                @ nat_to_string (n + 1))"
proof -
  have svc: "first_row (filter (\<lambda>s. svc_id s = serviceId) (services d)) = Some svc"
    using assms(1-3) by (rule first_row_filter_first)
  have sp: "is_space c \<longleftrightarrow> c \<in> {CHR 0x09, CHR 0x0A, CHR 0x0B, CHR 0x0C, CHR 0x0D, CHR '' ''}"
    for c by (simp add: is_space_def)
  have "service_prefix svc = toUpperCase (if core = [] then take 3 (svc_name svc) else core)"
    using assms(6) by (rule service_prefix_parts) (use assms(7,8) in \<open>auto simp: sp\<close>)
  with assms(9) have P: "service_prefix svc = P" by (simp only: toUpperCase_ascii)
  from assms(10) have plain: "plain_prefix (service_prefix svc)"
    by (simp add: P plain_prefix_def)
  have today: "today = filter (\<lambda>q. service_id q = serviceId
                        \<and> date_of (time_zone d) (requested_at q) = date_of (\<lambda>t. 0) now
                        \<and> startsWith (queue_number q) (service_prefix svc @ ''-''))
                   (queue_entries d)"
    unfolding assms(12) P by (rule filter_cong) (simp_all add: date_of_def startsWith_iff)
  define lastRow where "lastRow = order_by_limit1 (\<lambda>a b. qe_id a > qe_id b) today"
  have shape: "lastRow = None \<and> n = 0
         \<or> (\<exists>row ds. lastRow = Some row \<and> queue_number row = service_prefix svc @ ''-'' @ ds
               \<and> ds \<noteq> [] \<and> set ds \<subseteq> set ''0123456789'' \<and> digits_value 10 ds = n)"
    using assms(13)
  proof
    assume "today = [] \<and> n = 0"
    then show ?thesis by (simp add: lastRow_def)
  next
    assume "\<exists>row \<in> set today. (\<forall>q \<in> set today. qe_id q \<le> qe_id row)
               \<and> (\<exists>k. queue_number row = P @ ''-'' @ replicate k CHR ''0'' @ nat_to_string n)"
    then obtain row k where row: "row \<in> set today" "\<forall>q \<in> set today. qe_id q \<le> qe_id row"
      and num: "queue_number row = P @ ''-'' @ replicate k CHR ''0'' @ nat_to_string n"
      by blast
    have "distinct (map qe_id today)"
      unfolding today using assms(11) by (rule distinct_map_filter)
    from order_by_limit1_max_id [OF this row] have "lastRow = Some row"
      by (simp add: lastRow_def)
    with num padded_string_digits [of k n] digits_value_padded_string [of k n] P
    show ?thesis by blast
  qed
  from generateQueueNumber_next [OF svc plain lastRow_def [unfolded today, symmetric] shape]
  show ?thesis by (simp add: P padStart_def)
qed

text \<open>
  At the desk, whose session is eight hours east of UTC, it is 17:00 UTC of day 1. The
  cashier's configured prefix \<^verbatim>\<open>"  cash "\<close> is trimmed and upper-cased to CASH. Both
  tickets were requested at 22:00 UTC of day 0, which is day 1 for the session; the one
  with the highest id carries CASH-9, not the highest number and not padded, and the next
  number is CASH-010. The library's configured prefix is blank, so its prefix is LIB from
  its name; it has no ticket and its next number is LIB-001.
\<close>

theorem queue_number_sequencing_witness:
  "services db_desk = [cashier, library]
   \<and> time_zone db_desk 79200000000 = 28800
   \<and> svc_id cashier = 4 \<and> queue_prefix cashier = Some ''  cash ''
   \<and> map (\<lambda>q. (qe_id q, service_id q, queue_number q, requested_at q)) (queue_entries db_desk)
       = [(3, 4, ''CASH-041'', 79200000000), (7, 4, ''CASH-9'', 79200000000)]
   \<and> Queue_generateQueueNumber no_faults db_desk 147600000000 4 = Inr ''CASH-010''
   \<and> svc_id library = 5 \<and> queue_prefix library = Some ''  '' \<and> svc_name library = ''library''
   \<and> Queue_generateQueueNumber no_faults db_desk 147600000000 5 = Inr ''LIB-001''"
proof -
  have store: "services db_desk = [cashier, library]"
    "time_zone db_desk 79200000000 = 28800"
    "svc_id cashier = 4" "queue_prefix cashier = Some ''  cash ''"
    "map (\<lambda>q. (qe_id q, service_id q, queue_number q, requested_at q)) (queue_entries db_desk)
       = [(3, 4, ''CASH-041'', 79200000000), (7, 4, ''CASH-9'', 79200000000)]"
    "svc_id library = 5" "queue_prefix library = Some ''  ''" "svc_name library = ''library''"
    by (simp_all add: db_desk_def cashier_def library_def)
  have ids: "distinct (map qe_id (queue_entries db_desk))" by (simp add: db_desk_def)
  have "Queue_generateQueueNumber no_faults db_desk 147600000000 4
        = Inr (''CASH'' @ ''-'' @ replicate (3 - length (nat_to_string (9 + 1))) CHR ''0''
               @ nat_to_string (9 + 1))"
  proof (rule queue_number_sequencing [where pre = "[]" and svc = cashier and post = "[library]"
        and lead = "''  ''" and core = "''cash''" and trail = "'' ''"
        and today = "queue_entries db_desk"])
    show "services db_desk = [] @ cashier # [library]" by (simp add: db_desk_def)
    show "\<forall>s \<in> set []. svc_id s \<noteq> (4::nat)" by simp
    show "svc_id cashier = 4" by (simp add: cashier_def)
    show "ascii (svc_name cashier)" by (simp add: cashier_def ascii_def)
    show "ascii (''  '' @ ''cash'' @ '' '')" by (simp add: ascii_def)
    show "(case queue_prefix cashier of None \<Rightarrow> [] | Some p \<Rightarrow> p) = ''  '' @ ''cash'' @ '' ''"
      by (simp add: cashier_def)
    show "set ''  '' \<union> set '' ''
          \<subseteq> {CHR 0x09, CHR 0x0A, CHR 0x0B, CHR 0x0C, CHR 0x0D, CHR '' ''}" by simp
    show "''cash'' \<noteq> []
          \<longrightarrow> hd ''cash'' \<notin> {CHR 0x09, CHR 0x0A, CHR 0x0B, CHR 0x0C, CHR 0x0D, CHR '' ''}
              \<and> last ''cash'' \<notin> {CHR 0x09, CHR 0x0A, CHR 0x0B, CHR 0x0C, CHR 0x0D, CHR '' ''}"
      by simp
    show "''CASH'' = map (\<lambda>c. if 97 \<le> (of_char c :: nat) \<and> (of_char c :: nat) \<le> 122
                       then char_of ((of_char c :: nat) - 32) else c)
                 (if ''cash'' = [] then take 3 (svc_name cashier) else ''cash'')"
      by (simp add: eq_char_of_iff)
    show "\<forall>c \<in> set ''CASH''. c \<notin> {CHR ''-'', CHR ''%'', CHR ''_'', CHR 0x5C}" by simp
    show "distinct (map qe_id (queue_entries db_desk))" by (rule ids)
    show "queue_entries db_desk
          = filter (\<lambda>q. service_id q = 4
                        \<and> (int (requested_at q) + time_zone db_desk (requested_at q) * 1000000)
                              div 86400000000
                            = int 147600000000 div 86400000000
                        \<and> (\<exists>rest. queue_number q = ''CASH'' @ ''-'' @ rest))
              (queue_entries db_desk)"
      by (simp add: db_desk_def)
    show "queue_entries db_desk = [] \<and> (9::nat) = 0
          \<or> (\<exists>row \<in> set (queue_entries db_desk).
                (\<forall>q \<in> set (queue_entries db_desk). qe_id q \<le> qe_id row)
                \<and> (\<exists>k. queue_number row = ''CASH'' @ ''-'' @ replicate k CHR ''0'' @ nat_to_string 9))"
      by (rule disjI2, rule bexI [of _ "queue_entries db_desk ! 1"], rule conjI)
         (simp_all add: db_desk_def nat_to_string.simps digit_char_def)
    show "(9::nat) + 1 < 2 ^ 53" by simp
  qed
  then have cash: "Queue_generateQueueNumber no_faults db_desk 147600000000 4 = Inr ''CASH-010''"
    by (simp add: nat_to_string.simps digit_char_def replicate_numeral)
  have "Queue_generateQueueNumber no_faults db_desk 147600000000 5
        = Inr (''LIB'' @ ''-'' @ replicate (3 - length (nat_to_string (0 + 1))) CHR ''0''
               @ nat_to_string (0 + 1))"
  proof (rule queue_number_sequencing [where pre = "[cashier]" and svc = library and post = "[]"
        and lead = "''  ''" and core = "[]" and trail = "[]" and today = "[]"])
    show "services db_desk = [cashier] @ library # []" by (simp add: db_desk_def)
    show "\<forall>s \<in> set [cashier]. svc_id s \<noteq> (5::nat)" by (simp add: cashier_def)
    show "svc_id library = 5" by (simp add: library_def)
    show "ascii (svc_name library)" by (simp add: library_def ascii_def)
    show "ascii (''  '' @ [] @ [])" by (simp add: ascii_def)
    show "(case queue_prefix library of None \<Rightarrow> [] | Some p \<Rightarrow> p) = ''  '' @ [] @ []"
      by (simp add: library_def)
    show "set ''  '' \<union> set []
          \<subseteq> {CHR 0x09, CHR 0x0A, CHR 0x0B, CHR 0x0C, CHR 0x0D, CHR '' ''}" by simp
    show "([]::string) \<noteq> []
          \<longrightarrow> hd [] \<notin> {CHR 0x09, CHR 0x0A, CHR 0x0B, CHR 0x0C, CHR 0x0D, CHR '' ''}
              \<and> last [] \<notin> {CHR 0x09, CHR 0x0A, CHR 0x0B, CHR 0x0C, CHR 0x0D, CHR '' ''}"
      by simp
    show "''LIB'' = map (\<lambda>c. if 97 \<le> (of_char c :: nat) \<and> (of_char c :: nat) \<le> 122
                       then char_of ((of_char c :: nat) - 32) else c)
                 (if ([]::string) = [] then take 3 (svc_name library) else [])"
      by (simp add: library_def eq_char_of_iff)
    show "\<forall>c \<in> set ''LIB''. c \<notin> {CHR ''-'', CHR ''%'', CHR ''_'', CHR 0x5C}" by simp
    show "distinct (map qe_id (queue_entries db_desk))" by (rule ids)
    show "[] = filter (\<lambda>q. service_id q = 5
                        \<and> (int (requested_at q) + time_zone db_desk (requested_at q) * 1000000)
                              div 86400000000
                            = int 147600000000 div 86400000000
                        \<and> (\<exists>rest. queue_number q = ''LIB'' @ ''-'' @ rest))
              (queue_entries db_desk)"
      by (simp add: db_desk_def)
    show "([]::queue_entry list) = [] \<and> (0::nat) = 0
          \<or> (\<exists>row \<in> set ([]::queue_entry list).
                (\<forall>q \<in> set []. qe_id q \<le> qe_id row)
                \<and> (\<exists>k. queue_number row = ''LIB'' @ ''-'' @ replicate k CHR ''0'' @ nat_to_string 0))"
      by simp
    show "(0::nat) + 1 < 2 ^ 53" by simp
  qed
  then have lib: "Queue_generateQueueNumber no_faults db_desk 147600000000 5 = Inr ''LIB-001''"
    by (simp add: nat_to_string.simps digit_char_def replicate_numeral)
  from store cash lib show ?thesis by simp
qed

text \<open>
  Claim C2 as stated takes the highest number of the day. With REG-005 on ticket 1
  and REG-002 on ticket 2, the generator reads the number of ticket 2 and returns
  REG-003, not REG-006.
\<close>

theorem latest_not_highest_counterexample:
  "map qe_id (queue_entries db_out_of_order) = [1, 2]
   \<and> map queue_number (queue_entries db_out_of_order) = [''REG-005'', ''REG-002'']
   \<and> Queue_generateQueueNumber no_faults db_out_of_order 102 1 = Inr ''REG-003''"
  by (simp add: db_out_of_order_def db0_def registrar_def handler_defs string_defs)

lemma db_xray1_eq:
  "db_xray1 =
     \<lparr>services =
         [\<lparr>svc_id = 3, svc_name = ''X-Ray'', queue_prefix = None,
             estimated_service_time = Some 15, is_active = True\<rparr>],
         users = [1, 2, 3], counters = [],
         queue_entries =
           [\<lparr>qe_id = 1, user_id = 1, service_id = 3, queue_number = ''X-R-001'',
               queue_position = 1, status = Waiting, counter_id = None,
               estimated_wait_time = 15, requested_at = 100, called_at = None,
               started_serving_at = None, completed_at = None,
               cancelled_at = None\<rparr>],
         queue_logs =
           [\<lparr>log_queue_entry_id = 1, log_service_id = 3, log_counter_id = None,
               log_action = ''created''\<rparr>],
         queue_entries_id_seq = 1, system_settings = None, time_zone = (\<lambda>t. 0)\<rparr>"
  unfolding db_xray1_def db_xray_def xray_def by (simp add: handler_defs string_defs)

lemma db_xray2_eq:
  "db_xray2 =
     \<lparr>services =
         [\<lparr>svc_id = 3, svc_name = ''X-Ray'', queue_prefix = None,
             estimated_service_time = Some 15, is_active = True\<rparr>],
         users = [1, 2, 3], counters = [],
         queue_entries =
           [\<lparr>qe_id = 1, user_id = 1, service_id = 3, queue_number = ''X-R-001'',
               queue_position = 1, status = Waiting, counter_id = None,
               estimated_wait_time = 15, requested_at = 100, called_at = None,
               started_serving_at = None, completed_at = None,
               cancelled_at = None\<rparr>,
            \<lparr>qe_id = 2, user_id = 2, service_id = 3, queue_number = ''X-R-NaN'',
               queue_position = 2, status = Waiting, counter_id = None,
               estimated_wait_time = 30, requested_at = 101, called_at = None,
               started_serving_at = None, completed_at = None,
               cancelled_at = None\<rparr>],
         queue_logs =
           [\<lparr>log_queue_entry_id = 1, log_service_id = 3, log_counter_id = None,
               log_action = ''created''\<rparr>,
            \<lparr>log_queue_entry_id = 2, log_service_id = 3, log_counter_id = None,
               log_action = ''created''\<rparr>],
         queue_entries_id_seq = 2, system_settings = None, time_zone = (\<lambda>t. 0)\<rparr>"
  unfolding db_xray2_def db_xray1_eq by (simp add: handler_defs string_defs)

lemma db_xray3_eq:
  "db_xray3 =
     \<lparr>services =
         [\<lparr>svc_id = 3, svc_name = ''X-Ray'', queue_prefix = None,
             estimated_service_time = Some 15, is_active = True\<rparr>],
         users = [1, 2, 3], counters = [],
         queue_entries =
           [\<lparr>qe_id = 1, user_id = 1, service_id = 3, queue_number = ''X-R-001'',
               queue_position = 1, status = Waiting, counter_id = None,
               estimated_wait_time = 15, requested_at = 100, called_at = None,
               started_serving_at = None, completed_at = None,
               cancelled_at = None\<rparr>,
            \<lparr>qe_id = 2, user_id = 2, service_id = 3, queue_number = ''X-R-NaN'',
               queue_position = 2, status = Waiting, counter_id = None,
               estimated_wait_time = 30, requested_at = 101, called_at = None,
               started_serving_at = None, completed_at = None,
               cancelled_at = None\<rparr>,
            \<lparr>qe_id = 3, user_id = 3, service_id = 3, queue_number = ''X-R-NaN'',
               queue_position = 3, status = Waiting, counter_id = None,
               estimated_wait_time = 45, requested_at = 102, called_at = None,
               started_serving_at = None, completed_at = None,
               cancelled_at = None\<rparr>],
         queue_logs =
           [\<lparr>log_queue_entry_id = 1, log_service_id = 3, log_counter_id = None,
               log_action = ''created''\<rparr>,
            \<lparr>log_queue_entry_id = 2, log_service_id = 3, log_counter_id = None,
               log_action = ''created''\<rparr>,
            \<lparr>log_queue_entry_id = 3, log_service_id = 3, log_counter_id = None,
               log_action = ''created''\<rparr>],
         queue_entries_id_seq = 3, system_settings = None, time_zone = (\<lambda>t. 0)\<rparr>"
  unfolding db_xray3_def db_xray2_eq by (simp add: handler_defs string_defs)

text \<open>
  With a hyphen in the prefix, \<^verbatim>\<open>split('-')[1]\<close> is a piece of the prefix and not the
  number: the second and the third ticket of the day both get the number NaN.
\<close>

lemma hyphenated_prefix_numbers:
  "service_prefix xray = ''X-R''
   \<and> map queue_number (queue_entries db_xray3) = [''X-R-001'', ''X-R-NaN'', ''X-R-NaN'']"
  by (simp add: db_xray3_eq xray_def service_prefix_def string_defs)

section \<open>Uniqueness of queue numbers\<close>

text \<open>The two halves together are \<^verbatim>\<open>Queue.create\<close>.\<close>

lemma Queue_create_phases:
  "Queue_create f d now userId serviceId
   = (case Queue_create_reads f d now serviceId of
        Inl e \<Rightarrow> (Inl e, d)
      | Inr v \<Rightarrow> Queue_create_writes f d now userId serviceId v)"
  by (simp add: Queue_create_def Queue_create_reads_def Queue_create_writes_def Let_def
        split: sum.splits option.splits)










text \<open>
  The date of \<^verbatim>\<open>requested_at\<close> is taken in the time zone of the session and compared with
  the UTC date. At 17:00 UTC of day 1 it is day 2 for the session of the desk: the tickets
  created now are not among those of today, and two requests handled one after the other
  are both given CASH-010.
\<close>

lemma session_zone_numbers:
  "map queue_number (request_repeatedly db_desk 4 [(147600000000, 5), (147600000500, 6)])
   = [''CASH-010'', ''CASH-010'']"
  by (simp add: db_desk_def cashier_def library_def handler_defs string_defs)

end
